theory Spec2Isabelle
  imports Complex_Main
begin

section \<open>Data model (server.py, SCHEMA\_SQL)\<close>

text \<open>
  A row of table \<open>memories\<close>. Column \<open>id\<close> is the field \<open>mem_id\<close> and column
  \<open>context\<close> the field \<open>context_text\<close> (both names are taken in Isabelle). The REAL
  columns are real numbers here. The three timestamp columns hold what
  \<open>datetime.now(timezone.utc).isoformat()\<close> wrote; such texts compare as strings exactly
  as the instants compare, so a timestamp is the integer number of microseconds since
  the epoch (the resolution of \<open>datetime\<close>). \<open>superseded_by\<close> is \<open>None\<close> for SQL NULL.
\<close>

record memory =
  mem_id :: int
  category :: string
  content :: string
  context_text :: "string option"
  project :: "string option"
  confidence :: real
  importance :: real
  access_count :: int
  last_accessed :: "int option"
  created_at :: int
  updated_at :: int
  source_session :: "string option"
  superseded_by :: "int option"

text \<open>
  The database: table \<open>memories\<close> in rowid order, table \<open>tags\<close> (memory\_id, tag) and
  table \<open>relations\<close> (from\_id, to\_id, relation\_type).
\<close>

record store =
  memories :: "memory list"
  tags :: "(int \<times> string) list"
  relations :: "(int \<times> int \<times> string) list"

datatype error = IntegrityError | ValueError | OperationalError

definition is_active :: "memory \<Rightarrow> bool" where
  "is_active m = (superseded_by m = None)"

text \<open>\<open>timedelta(days=n)\<close> in microseconds.\<close>

definition days :: "int \<Rightarrow> int" where
  "days n = n * 86400000000"

definition age :: "int \<Rightarrow> memory \<Rightarrow> int" where
  "age now m = now - created_at m"

section \<open>Consolidation sweep (consolidate.py)\<close>

subsection \<open>Pass 1: decay\<close>

text \<open>
  The WHERE clause of the first UPDATE:
  \<open>superseded_by IS NULL AND access_count = 0 AND created_at < cutoff_30d AND importance > 0.1\<close>.
\<close>

definition decays :: "int \<Rightarrow> memory \<Rightarrow> bool" where
  "decays now m =
     (superseded_by m = None \<and> access_count m = 0 \<and> created_at m < now - days 30
      \<and> importance m > 0.1)"

definition decay_pass :: "int \<Rightarrow> memory list \<Rightarrow> memory list" where
  "decay_pass now ms =
     map (\<lambda>m. if decays now m
              then m\<lparr>importance := importance m * 0.9, updated_at := now\<rparr>
              else m) ms"

subsection \<open>Pass 2: retirement\<close>

text \<open>
  The WHERE clause of the second UPDATE:
  \<open>superseded_by IS NULL AND importance < 0.1 AND access_count = 0 AND created_at < cutoff_90d\<close>.
\<close>

definition retires :: "int \<Rightarrow> memory \<Rightarrow> bool" where
  "retires now m =
     (superseded_by m = None \<and> importance m < 0.1 \<and> access_count m = 0
      \<and> created_at m < now - days 90)"

text \<open>
  The UPDATE writes \<open>superseded_by = -1\<close>. The connection runs with
  \<open>PRAGMA foreign_keys=ON\<close> and the schema declares
  \<open>FOREIGN KEY (superseded_by) REFERENCES memories(id)\<close>: when the statement changes a
  row and no row has id \<open>-1\<close>, SQLite rejects the statement and \<open>db.execute\<close> raises
  \<open>sqlite3.IntegrityError\<close>.
\<close>

definition retire_pass :: "int \<Rightarrow> memory list \<Rightarrow> error + memory list" where
  "retire_pass now ms =
     (if (\<exists>m\<in>set ms. retires now m) \<and> (- 1) \<notin> set (map mem_id ms)
      then Inl IntegrityError
      else Inr (map (\<lambda>m. if retires now m
                         then m\<lparr>superseded_by := Some (- 1), updated_at := now\<rparr>
                         else m) ms))"

subsection \<open>Pass 3: deduplication\<close>

text \<open>
  SQLite's \<open>TRIM(X)\<close> strips spaces (0x20) from both ends; \<open>LOWER(X)\<close> maps the ASCII
  letters A-Z to a-z and leaves every other byte.
\<close>

definition sql_trim :: "string \<Rightarrow> string" where
  "sql_trim s =
     rev (dropWhile (\<lambda>c. c = CHR '' '') (rev (dropWhile (\<lambda>c. c = CHR '' '') s)))"

definition sql_lower_char :: "char \<Rightarrow> char" where
  "sql_lower_char c =
     (let n = (of_char c :: nat) in if 65 \<le> n \<and> n \<le> 90 then char_of (n + 32) else c)"

definition sql_lower :: "string \<Rightarrow> string" where
  "sql_lower s = map sql_lower_char s"

definition content_key :: "memory \<Rightarrow> string" where
  "content_key m = sql_lower (sql_trim (content m))"

text \<open>
  The query \<open>dupes\<close>: the active rows grouped by \<open>LOWER(TRIM(content))\<close>, the groups of
  more than one row, each as the sorted list of its ids
  (\<open>sorted([int(x) for x in dupe["ids"].split(",")])\<close>).
\<close>

definition dupes :: "memory list \<Rightarrow> int list list" where
  "dupes ms =
     (let act = filter is_active ms;
          ks = remdups (map content_key act)
      in filter (\<lambda>ids. length ids > 1)
           (map (\<lambda>k. sort (map mem_id (filter (\<lambda>m. content_key m = k) act))) ks))"

text \<open>
  \<open>SELECT id, access_count, importance FROM memories WHERE id IN (ids)\<close>: the rows come
  back in rowid order.
\<close>

definition select_rows :: "int list \<Rightarrow> memory list \<Rightarrow> (int \<times> int \<times> real) list" where
  "select_rows ids ms =
     map (\<lambda>m. (mem_id m, access_count m, importance m))
       (filter (\<lambda>m. mem_id m \<in> set ids) ms)"

text \<open>
  Python compares the keys \<open>(access_count, importance)\<close> as tuples, and
  \<open>max(rows, key=...)\<close> returns the first row whose key no later row exceeds; on an
  empty sequence it raises \<open>ValueError\<close>.
\<close>

definition key_less :: "int \<times> int \<times> real \<Rightarrow> int \<times> int \<times> real \<Rightarrow> bool" where
  "key_less r r' =
     (fst (snd r) < fst (snd r') \<or> (fst (snd r) = fst (snd r') \<and> snd (snd r) < snd (snd r')))"

fun max_from :: "int \<times> int \<times> real \<Rightarrow> (int \<times> int \<times> real) list \<Rightarrow> int \<times> int \<times> real" where
  "max_from best [] = best"
| "max_from best (r # rs) = max_from (if key_less best r then r else best) rs"

definition max_row :: "(int \<times> int \<times> real) list \<Rightarrow> error + (int \<times> int \<times> real)" where
  "max_row rows = (case rows of [] \<Rightarrow> Inl ValueError | r # rs \<Rightarrow> Inr (max_from r rs))"

text \<open>\<open>UPDATE memories SET superseded_by = ?, updated_at = ? WHERE id = ?\<close>\<close>

definition set_superseded :: "int \<Rightarrow> int \<Rightarrow> int \<Rightarrow> memory list \<Rightarrow> memory list" where
  "set_superseded now keeper_id row_id ms =
     map (\<lambda>m. if mem_id m = row_id
              then m\<lparr>superseded_by := Some keeper_id, updated_at := now\<rparr>
              else m) ms"

text \<open>The inner loop \<open>for row in rows\<close>.\<close>

fun supersede_rest :: "int \<Rightarrow> int \<Rightarrow> (int \<times> int \<times> real) list \<Rightarrow> memory list \<Rightarrow> memory list" where
  "supersede_rest now keeper_id [] ms = ms"
| "supersede_rest now keeper_id (row # rows) ms =
     supersede_rest now keeper_id rows
       (if fst row \<noteq> keeper_id then set_superseded now keeper_id (fst row) ms else ms)"

text \<open>One iteration of \<open>for dupe in dupes\<close>.\<close>

definition dedup_group :: "int \<Rightarrow> int list \<Rightarrow> memory list \<Rightarrow> error + memory list" where
  "dedup_group now ids ms =
     (let rows = select_rows ids ms
      in case max_row rows of
           Inl e \<Rightarrow> Inl e
         | Inr keeper \<Rightarrow> Inr (supersede_rest now (fst keeper) rows ms))"

fun dedup_loop :: "int \<Rightarrow> int list list \<Rightarrow> memory list \<Rightarrow> error + memory list" where
  "dedup_loop now [] ms = Inr ms"
| "dedup_loop now (ids # rest) ms =
     (case dedup_group now ids ms of
        Inl e \<Rightarrow> Inl e
      | Inr ms' \<Rightarrow> dedup_loop now rest ms')"

definition dedup_pass :: "int \<Rightarrow> memory list \<Rightarrow> error + memory list" where
  "dedup_pass now ms = dedup_loop now (dupes ms) ms"

subsection \<open>The sweep\<close>

text \<open>
  \<open>consolidate\<close> on an existing database at time \<open>now\<close>. The three passes run in one
  transaction that only the final \<open>db.commit()\<close> makes durable: an exception leaves the
  function before the commit, so \<open>Inl\<close> means that the table on disk is still the
  argument. The sweep touches neither \<open>tags\<close> nor \<open>relations\<close>.
\<close>

definition consolidate :: "int \<Rightarrow> memory list \<Rightarrow> error + memory list" where
  "consolidate now ms =
     (case retire_pass now (decay_pass now ms) of
        Inl e \<Rightarrow> Inl e
      | Inr ms2 \<Rightarrow> dedup_pass now ms2)"

section \<open>Server operations (server.py)\<close>

text \<open>
  What a tool call returns: the constructor stands for the message template, its
  arguments for the values formatted into it.
\<close>

datatype reply =
    NotFound int
  | Superseded int int string
  | NotFoundOrForgotten int
  | Forgotten int string

text \<open>Python's truth value of a \<open>str | None\<close>: \<open>None\<close> and the empty string are false.\<close>

definition truthy :: "string option \<Rightarrow> bool" where
  "truthy x = (case x of None \<Rightarrow> False | Some s \<Rightarrow> s \<noteq> [])"

text \<open>
  \<open>cursor.lastrowid\<close> after an INSERT into the AUTOINCREMENT table: one more than the
  largest rowid ever used. No statement of the program deletes a row, so that is the
  largest id in the table, and 1 in an empty table.
\<close>

definition last_rowid :: "memory list \<Rightarrow> int" where
  "last_rowid ms = fold max (map mem_id ms) 0"

text \<open>\<open>INSERT OR IGNORE\<close> into a table whose primary key is the whole row.\<close>

definition insert_or_ignore :: "'a \<Rightarrow> 'a list \<Rightarrow> 'a list" where
  "insert_or_ignore x xs = (if x \<in> set xs then xs else xs @ [x])"

text \<open>Decimal text of an integer, as an f-string formats it.\<close>

function digits :: "nat \<Rightarrow> string" where
  "digits n =
     (if n < 10 then [char_of (48 + n)] else digits (n div 10) @ [char_of (48 + n mod 10)])"
  by pat_completeness auto
termination
  by (relation "measure id") auto

declare digits.simps [simp del]

definition str_int :: "int \<Rightarrow> string" where
  "str_int i = (if i < 0 then CHR ''-'' # digits (nat (- i)) else digits (nat i))"

subsection \<open>correct\<close>

text \<open>
  \<open>ts\<close> is the value of \<open>now_iso()\<close> and \<open>session\<close> the value of
  \<open>os.environ.get("SESSION_ID")\<close>. The row is looked up by id alone
  (\<open>SELECT * FROM memories WHERE id = ?\<close>).
\<close>

definition correct ::
  "int \<Rightarrow> string \<Rightarrow> string option \<Rightarrow> int \<Rightarrow> string option \<Rightarrow> store \<Rightarrow> reply \<times> store" where
  "correct old_memory_id new_content reason ts session s =
     (case find (\<lambda>m. mem_id m = old_memory_id) (memories s) of
        None \<Rightarrow> (NotFound old_memory_id, s)
      | Some old \<Rightarrow>
          (let new_id = last_rowid (memories s) + 1;
               new = \<lparr>mem_id = new_id, category = category old, content = new_content,
                      context_text =
                        (if truthy reason then reason
                         else Some (''Correction of #'' @ str_int old_memory_id)),
                      project = project old, confidence = 0.9,
                      importance = max (importance old) 0.7, access_count = 0,
                      last_accessed = None, created_at = ts, updated_at = ts,
                      source_session = session, superseded_by = None\<rparr>;
               ms1 = memories s @ [new];
               ms2 = map (\<lambda>m. if mem_id m = old_memory_id
                               then m\<lparr>superseded_by := Some new_id\<rparr> else m) ms1;
               rels = insert_or_ignore (new_id, old_memory_id, ''supersedes'') (relations s);
               tgs = fold insert_or_ignore
                       (map (\<lambda>(i, t). (new_id, t))
                          (filter (\<lambda>(i, t). i = old_memory_id) (tags s)))
                       (tags s)
           in (Superseded old_memory_id new_id new_content,
               \<lparr>memories = ms2, tags = tgs, relations = rels\<rparr>)))"

subsection \<open>forget\<close>

text \<open>
  The lookup is \<open>SELECT content FROM memories WHERE id = ? AND superseded_by IS NULL\<close>,
  the mutation \<open>UPDATE memories SET superseded_by = id WHERE id = ?\<close>.
\<close>

definition forget :: "int \<Rightarrow> store \<Rightarrow> reply \<times> store" where
  "forget memory_id s =
     (case find (\<lambda>m. mem_id m = memory_id \<and> superseded_by m = None) (memories s) of
        None \<Rightarrow> (NotFoundOrForgotten memory_id, s)
      | Some existing \<Rightarrow>
          (Forgotten memory_id (content existing),
           s\<lparr>memories :=
                map (\<lambda>m. if mem_id m = memory_id
                         then m\<lparr>superseded_by := Some (mem_id m)\<rparr> else m) (memories s)\<rparr>))"

subsection \<open>recall and list\_memories\<close>

text \<open>
  The conditions both functions collect: \<open>if category:\<close> and \<open>if project:\<close> add a
  condition only for a truthy argument.
\<close>

definition category_cond :: "string option \<Rightarrow> memory \<Rightarrow> bool" where
  "category_cond cat m = (if truthy cat then Some (category m) = cat else True)"

definition project_cond :: "string option \<Rightarrow> memory \<Rightarrow> bool" where
  "project_cond proj m = (if truthy proj then project m = proj \<or> project m = None else True)"

text \<open>SQL \<open>LIMIT n\<close>: a negative \<open>n\<close> is no limit.\<close>

definition sql_limit :: "int \<Rightarrow> 'a list \<Rightarrow> 'a list" where
  "sql_limit n xs = (if n < 0 then xs else take (nat n) xs)"

text \<open>
  The full-text index is outside the model: \<open>fts query\<close> is the answer of
  \<open>memories_fts MATCH query\<close>, the matching rowids in rank order, or \<open>None\<close> when SQLite
  rejects the query text (\<open>sqlite3.OperationalError\<close>). The result is the list of the
  selected rows (empty for the reply "No memories found matching that query.") and the
  store with the access bookkeeping done.
\<close>

definition touch :: "int \<Rightarrow> int \<Rightarrow> memory list \<Rightarrow> memory list" where
  "touch ts row_id ms =
     map (\<lambda>m. if mem_id m = row_id
              then m\<lparr>access_count := access_count m + 1, last_accessed := Some ts\<rparr>
              else m) ms"

definition recall ::
  "(string \<Rightarrow> int list option) \<Rightarrow> string \<Rightarrow> string option \<Rightarrow> string option \<Rightarrow> int \<Rightarrow> bool
     \<Rightarrow> int \<Rightarrow> store \<Rightarrow> error + (memory list \<times> store)" where
  "recall fts query cat proj limit include_superseded ts s =
     (case fts query of
        None \<Rightarrow> Inl OperationalError
      | Some ranked \<Rightarrow>
          (let matching =
                 concat (map (\<lambda>rid. filter (\<lambda>m. mem_id m = rid
                                              \<and> (include_superseded \<or> superseded_by m = None)
                                              \<and> category_cond cat m \<and> project_cond proj m)
                                       (memories s)) ranked);
               rows = sql_limit limit matching
           in Inr (rows, s\<lparr>memories := fold (\<lambda>row. touch ts (mem_id row)) rows (memories s)\<rparr>)))"

text \<open>
  \<open>ORDER BY key DESC\<close> as a stable sort on the negated key (SQLite leaves the order of
  equal keys open). An unknown \<open>sort\<close> falls back to the score order.
\<close>

definition list_memories ::
  "string option \<Rightarrow> string option \<Rightarrow> int \<Rightarrow> string \<Rightarrow> store \<Rightarrow> memory list" where
  "list_memories cat proj limit sort_by s =
     (let rows = filter (\<lambda>m. superseded_by m = None \<and> category_cond cat m \<and> project_cond proj m)
                   (memories s);
          ordered =
            (if sort_by = ''recency'' then sort_key (\<lambda>m. - created_at m) rows
             else if sort_by = ''importance'' then sort_key (\<lambda>m. - importance m) rows
             else if sort_by = ''accessed'' then sort_key (\<lambda>m. - access_count m) rows
             else sort_key (\<lambda>m. - (importance m * confidence m
                                     * (1.0 + real_of_int (access_count m) * 0.1))) rows)
      in sql_limit limit ordered)"

section \<open>Scoring (surface.py)\<close>

text \<open>
  The argument of \<open>score_memory\<close> is a dict made from a row; the function guards
  against missing values. \<open>row_created_at\<close> is what \<open>datetime.fromisoformat\<close> makes of the
  text: \<open>Some\<close> instant (in microseconds), or \<open>None\<close> when it raises \<open>ValueError\<close> or
  \<open>TypeError\<close> (malformed text, or no text at all).
\<close>

record row =
  row_importance :: "real option"
  row_confidence :: "real option"
  row_access_count :: "int option"
  row_created_at :: "int option"

text \<open>Python's \<open>x or d\<close> on a number or \<open>None\<close>: \<open>None\<close> and zero give \<open>d\<close>.\<close>

definition or_default :: "'a::zero option \<Rightarrow> 'a \<Rightarrow> 'a" where
  "or_default x d = (case x of None \<Rightarrow> d | Some v \<Rightarrow> if v = 0 then d else v)"

text \<open>\<open>hours_old\<close>: \<open>(now - created).total_seconds() / 3600\<close>.\<close>

definition hours_old :: "int \<Rightarrow> int \<Rightarrow> real" where
  "hours_old now created = real_of_int (now - created) / 3600000000"

definition time_decay :: "int \<Rightarrow> int option \<Rightarrow> real" where
  "time_decay now c =
     (case c of
        Some created \<Rightarrow> 0.998 powr max (hours_old now created) 0
      | None \<Rightarrow> 0.5)"

definition score_memory :: "int \<Rightarrow> row \<Rightarrow> real" where
  "score_memory now r =
     (let importance = or_default (row_importance r) 0.5;
          confidence = or_default (row_confidence r) 0.8;
          access = or_default (row_access_count r) 0;
          freq_boost = 1.0 + real_of_int access * 0.1;
          decay = time_decay now (row_created_at r)
      in importance * confidence * freq_boost * decay)"

section \<open>Example stores\<close>

text \<open>
  One stored memory with one tag, as \<open>remember\<close> leaves it, and the same store after
  \<open>forget 1\<close>.
\<close>

definition example_memory :: memory where
  "example_memory =
     \<lparr>mem_id = 1, category = ''facts'', content = ''Uses tabs'', context_text = None,
      project = Some ''mnemon'', confidence = 0.8, importance = 0.5, access_count = 0,
      last_accessed = None, created_at = 1000, updated_at = 1000, source_session = None,
      superseded_by = None\<rparr>"

definition example_store :: store where
  "example_store = \<lparr>memories = [example_memory], tags = [(1, ''style'')], relations = []\<rparr>"

definition retired_store :: store where
  "retired_store =
     \<lparr>memories = [example_memory\<lparr>superseded_by := Some 1\<rparr>], tags = [(1, ''style'')],
      relations = []\<rparr>"


text \<open>
  A value that is absent or not negative: the range the data model gives importance,
  confidence and access\_count.
\<close>

definition opt_ge0 :: "'a::{zero,ord} option \<Rightarrow> bool" where
  "opt_ge0 x = (case x of None \<Rightarrow> True | Some v \<Rightarrow> 0 \<le> v)"

definition example_row :: row where
  "example_row = \<lparr>row_importance = Some 0.5, row_confidence = Some 0.8,
                   row_access_count = Some 2, row_created_at = Some 0\<rparr>"


text \<open>
  A store with a memory of project \<open>mnemon\<close>, one of project \<open>webshop\<close> and a global one,
  and a full-text index that matches all three.
\<close>

definition other_memory :: memory where
  "other_memory =
     \<lparr>mem_id = 2, category = ''facts'', content = ''Deploys from main'', context_text = None,
      project = Some ''webshop'', confidence = 0.8, importance = 0.5, access_count = 0,
      last_accessed = None, created_at = 1500, updated_at = 1500, source_session = None,
      superseded_by = None\<rparr>"

definition global_memory :: memory where
  "global_memory =
     \<lparr>mem_id = 3, category = ''preferences'', content = ''Prefers short answers'',
      context_text = None, project = None, confidence = 0.8, importance = 0.5,
      access_count = 0, last_accessed = None, created_at = 1700, updated_at = 1700,
      source_session = None, superseded_by = None\<rparr>"

definition project_store :: store where
  "project_store = \<lparr>memories = [example_memory, other_memory, global_memory], tags = [],
                     relations = []\<rparr>"

definition fts_all :: "string \<Rightarrow> int list option" where
  "fts_all q = Some [3, 2, 1]"

section \<open>Notions for stating the sweep's properties\<close>

text \<open>The three columns the deduplication pass selects from a row.\<close>

definition row_of :: "memory \<Rightarrow> int \<times> int \<times> real" where
  "row_of m = (mem_id m, access_count m, importance m)"

text \<open>What the UPDATE of the deduplication pass does to the row it addresses.\<close>

definition mark :: "int \<Rightarrow> int \<Rightarrow> memory \<Rightarrow> memory" where
  "mark now k m = m\<lparr>superseded_by := Some k, updated_at := now\<rparr>"

text \<open>What one iteration of \<open>for dupe in dupes\<close> with keeper \<open>k\<close> does to a row.\<close>

definition upd_group :: "int \<Rightarrow> int list \<Rightarrow> int \<Rightarrow> memory \<Rightarrow> memory" where
  "upd_group now ids k m = (if mem_id m \<in> set ids \<and> mem_id m \<noteq> k then mark now k m else m)"

text \<open>The id of the row that \<open>max\<close> picks from a non-empty list of rows.\<close>

definition keeper_of :: "(int \<times> int \<times> real) list \<Rightarrow> int" where
  "keeper_of rows = fst (max_from (hd rows) (tl rows))"

text \<open>
  The group of a record in the words of the specification: the Active records whose
  normalised content equals its own.
\<close>

definition dup_group :: "memory list \<Rightarrow> memory \<Rightarrow> memory list" where
  "dup_group ms m = filter (\<lambda>x. is_active x \<and> content_key x = content_key m) ms"

text \<open>The ids of the Active rows with normalised content \<open>k\<close>, as \<open>dupes\<close> lists them.\<close>

definition group_ids :: "memory list \<Rightarrow> string \<Rightarrow> int list" where
  "group_ids ms k = sort (map mem_id (filter (\<lambda>m. content_key m = k) (filter is_active ms)))"

section \<open>Example memories for the sweep\<close>

text \<open>
  The sweep runs at \<open>now = days 100\<close>. \<open>stale_memory\<close> is 35 days old, \<open>boundary_memory\<close>
  exactly 30 days, \<open>faded_memory\<close> 100 days and \<open>quarter_old_memory\<close> exactly 90 days;
  \<open>often_used\<close> and \<open>rarely_used\<close> have the same normalised content; \<open>settled_memory\<close> is
  just above the decay threshold.
\<close>

definition stale_memory :: memory where
  "stale_memory =
     \<lparr>mem_id = 1, category = ''facts'', content = ''Build with make'', context_text = None,
      project = None, confidence = 0.8, importance = 0.5, access_count = 0,
      last_accessed = None, created_at = days 65, updated_at = days 65, source_session = None,
      superseded_by = None\<rparr>"

definition boundary_memory :: memory where
  "boundary_memory =
     \<lparr>mem_id = 1, category = ''facts'', content = ''Build with make'', context_text = None,
      project = None, confidence = 0.8, importance = 0.5, access_count = 0,
      last_accessed = None, created_at = days 70, updated_at = days 70, source_session = None,
      superseded_by = None\<rparr>"

definition faded_memory :: memory where
  "faded_memory =
     \<lparr>mem_id = 1, category = ''facts'', content = ''Build with make'', context_text = None,
      project = None, confidence = 0.8, importance = 0.05, access_count = 0,
      last_accessed = None, created_at = 0, updated_at = 0, source_session = None,
      superseded_by = None\<rparr>"

definition quarter_old_memory :: memory where
  "quarter_old_memory =
     \<lparr>mem_id = 1, category = ''facts'', content = ''Build with make'', context_text = None,
      project = None, confidence = 0.8, importance = 0.05, access_count = 0,
      last_accessed = None, created_at = days 10, updated_at = days 10, source_session = None,
      superseded_by = None\<rparr>"

definition often_used :: memory where
  "often_used =
     \<lparr>mem_id = 1, category = ''preferences'', content = ''Use tabs'', context_text = None,
      project = None, confidence = 0.8, importance = 0.4, access_count = 3,
      last_accessed = Some (days 99), created_at = days 95, updated_at = days 95,
      source_session = None, superseded_by = None\<rparr>"

definition rarely_used :: memory where
  "rarely_used =
     \<lparr>mem_id = 2, category = ''preferences'', content = '' use TABS '', context_text = None,
      project = None, confidence = 0.8, importance = 0.9, access_count = 1,
      last_accessed = Some (days 98), created_at = days 96, updated_at = days 96,
      source_session = None, superseded_by = None\<rparr>"

definition settled_memory :: memory where
  "settled_memory =
     \<lparr>mem_id = 3, category = ''facts'', content = ''Build with make'', context_text = None,
      project = None, confidence = 0.8, importance = 0.105, access_count = 0,
      last_accessed = None, created_at = days 65, updated_at = days 65, source_session = None,
      superseded_by = None\<rparr>"

section \<open>Properties of the server operations\<close>

lemmas example_defs = example_memory_def example_store_def retired_store_def

lemma find_distinct:
  "distinct (map mem_id ms) \<Longrightarrow> m \<in> set ms \<Longrightarrow> find (\<lambda>x. mem_id x = mem_id m) ms = Some m"
  by (induction ms) (auto simp: image_iff)

lemma fold_max_ge: "a \<le> fold max xs (a::int) \<and> (\<forall>x\<in>set xs. x \<le> fold max xs a)"
proof (induction xs arbitrary: a)
  case Nil
  show ?case by simp
next
  case (Cons x xs)
  have "max x a \<le> fold max xs (max x a)" and "\<forall>y\<in>set xs. y \<le> fold max xs (max x a)"
    using Cons.IH [of "max x a"] by simp_all
  then show ?case by auto
qed

lemma last_rowid_fresh: "m \<in> set ms \<Longrightarrow> mem_id m < last_rowid ms + 1"
  using fold_max_ge [of 0 "map mem_id ms"] by (auto simp: last_rowid_def)

lemma set_fold_insert_or_ignore:
  "set (fold insert_or_ignore xs ys) = set xs \<union> set ys"
  by (induction xs arbitrary: ys) (auto simp: insert_or_ignore_def)

lemma find_None_id: "(\<forall>m\<in>set ms. \<not> P m) \<Longrightarrow> find P ms = None"
  by (induction ms) auto

lemma find_Some_ex: "\<exists>m\<in>set ms. P m \<Longrightarrow> \<exists>x. find P ms = Some x \<and> P x \<and> x \<in> set ms"
  by (induction ms) auto

lemma find_Some_sat: "find P ms = Some x \<Longrightarrow> P x \<and> x \<in> set ms"
  by (induction ms) (auto split: if_splits)

text \<open>
  C2: for an existing record \<open>old\<close> and any new content, \<open>correct\<close> appends exactly one
  record \<open>new\<close> with a fresh id: it is Active, carries the new content and the category,
  project and tags of \<open>old\<close>, has importance \<open>max (importance old) 0.7\<close> and confidence
  0.9; \<open>old\<close> gets \<open>superseded_by = id of new\<close>, and the edge (new, old, supersedes) is in
  \<open>relations\<close>. The store is as SQLite keeps it: ids are unique and every tag belongs to a
  stored memory.
\<close>

theorem correct_creates_successor:
  assumes ids: "distinct (map mem_id (memories s))"
    and fk: "fst ` set (tags s) \<subseteq> mem_id ` set (memories s)"
    and old: "old \<in> set (memories s)"
    and res: "correct (mem_id old) new_content reason ts session s = (r, s')"
  shows "\<exists>new. memories s' =
                 map (\<lambda>m. if mem_id m = mem_id old then m\<lparr>superseded_by := Some (mem_id new)\<rparr> else m)
                   (memories s) @ [new]
           \<and> mem_id new \<notin> mem_id ` set (memories s)
           \<and> superseded_by new = None \<and> content new = new_content
           \<and> category new = category old \<and> project new = project old
           \<and> {t. (mem_id new, t) \<in> set (tags s')} = {t. (mem_id old, t) \<in> set (tags s)}
           \<and> importance new = max (importance old) 0.7 \<and> confidence new = 0.9
           \<and> old\<lparr>superseded_by := Some (mem_id new)\<rparr> \<in> set (memories s')
           \<and> (mem_id new, mem_id old, ''supersedes'') \<in> set (relations s')"
proof -
  let ?n = "last_rowid (memories s) + 1"
  have found: "find (\<lambda>m. mem_id m = mem_id old) (memories s) = Some old"
    by (rule find_distinct [OF ids old])
  have fresh: "\<And>m. m \<in> set (memories s) \<Longrightarrow> mem_id m \<noteq> ?n"
    using last_rowid_fresh by fastforce
  then have fresh_old: "mem_id old \<noteq> ?n" using old by blast
  have notag: "(?n, t) \<notin> set (tags s)" for t
    using fk fresh by fastforce
  define new where "new = \<lparr>mem_id = ?n, category = category old, content = new_content,
       context_text = (if truthy reason then reason
                       else Some (''Correction of #'' @ str_int (mem_id old))),
       project = project old, confidence = 0.9, importance = max (importance old) 0.7,
       access_count = 0, last_accessed = None, created_at = ts, updated_at = ts,
       source_session = session, superseded_by = None\<rparr>"
  have s': "s' = \<lparr>memories = map (\<lambda>m. if mem_id m = mem_id old
                                      then m\<lparr>superseded_by := Some ?n\<rparr> else m) (memories s) @ [new],
                  tags = fold insert_or_ignore
                           (map (\<lambda>(i, t). (?n, t)) (filter (\<lambda>(i, t). i = mem_id old) (tags s)))
                           (tags s),
                  relations = insert_or_ignore (?n, mem_id old, ''supersedes'') (relations s)\<rparr>"
    using res fresh_old by (simp add: correct_def found Let_def new_def)
  have id_new: "mem_id new = ?n" by (simp add: new_def)
  have tags_eq: "{t. (?n, t) \<in> set (tags s')} = {t. (mem_id old, t) \<in> set (tags s)}"
    using notag by (auto simp: s' set_fold_insert_or_ignore)
  have old_in: "old\<lparr>superseded_by := Some ?n\<rparr> \<in> set (memories s')"
    using old by (force simp: s')
  have rel_in: "(?n, mem_id old, ''supersedes'') \<in> set (relations s')"
    by (simp add: s' insert_or_ignore_def)
  have fresh_img: "?n \<notin> mem_id ` set (memories s)" using fresh by force
  show ?thesis
    apply (rule exI [of _ new])
    using tags_eq old_in rel_in fresh_img
    by (simp add: id_new) (simp add: s' new_def)
qed


theorem correct_creates_successor_witness:
  "distinct (map mem_id (memories example_store))
   \<and> fst ` set (tags example_store) \<subseteq> mem_id ` set (memories example_store)
   \<and> example_memory \<in> set (memories example_store)
   \<and> (\<exists>new. memories (snd (correct (mem_id example_memory) ''Uses spaces'' None 2000 None example_store)) =
                 map (\<lambda>m. if mem_id m = mem_id example_memory
                          then m\<lparr>superseded_by := Some (mem_id new)\<rparr> else m)
                   (memories example_store) @ [new]
           \<and> mem_id new \<notin> mem_id ` set (memories example_store)
           \<and> superseded_by new = None \<and> content new = ''Uses spaces''
           \<and> category new = category example_memory \<and> project new = project example_memory
           \<and> {t. (mem_id new, t) \<in> set (tags (snd (correct (mem_id example_memory) ''Uses spaces'' None 2000 None example_store)))}
               = {t. (mem_id example_memory, t) \<in> set (tags example_store)}
           \<and> importance new = max (importance example_memory) 0.7 \<and> confidence new = 0.9
           \<and> example_memory\<lparr>superseded_by := Some (mem_id new)\<rparr>
               \<in> set (memories (snd (correct (mem_id example_memory) ''Uses spaces'' None 2000 None example_store)))
           \<and> (mem_id new, mem_id example_memory, ''supersedes'')
               \<in> set (relations (snd (correct (mem_id example_memory) ''Uses spaces'' None 2000 None example_store))))"
proof -
  have h1: "distinct (map mem_id (memories example_store))" by (simp add: example_defs)
  have h2: "fst ` set (tags example_store) \<subseteq> mem_id ` set (memories example_store)"
    by (simp add: example_defs)
  have h3: "example_memory \<in> set (memories example_store)" by (simp add: example_defs)
  have h4: "correct (mem_id example_memory) ''Uses spaces'' None 2000 None example_store =
              (fst (correct (mem_id example_memory) ''Uses spaces'' None 2000 None example_store),
               snd (correct (mem_id example_memory) ''Uses spaces'' None 2000 None example_store))"
    by simp
  show ?thesis using h1 h2 h3 correct_creates_successor [OF h1 h2 h3 h4] by blast
qed

text \<open>
  C6 as stated fails: \<open>correct\<close> on the Retired record of \<open>retired_store\<close> is accepted, a
  second record is created and the edge is inserted.
\<close>

theorem correct_accepts_retired_counterexample:
  "superseded_by (hd (memories retired_store)) = Some 1
   \<and> fst (correct 1 ''Uses spaces'' None 2000 None retired_store) = Superseded 1 2 ''Uses spaces''
   \<and> length (memories (snd (correct 1 ''Uses spaces'' None 2000 None retired_store))) = 2
   \<and> relations (snd (correct 1 ''Uses spaces'' None 2000 None retired_store)) = [(2, 1, ''supersedes'')]
   \<and> snd (correct 1 ''Uses spaces'' None 2000 None retired_store) \<noteq> retired_store"
  by (simp add: example_defs correct_def last_rowid_def insert_or_ignore_def truthy_def Let_def)

text \<open>
  C6, amended: \<open>correct\<close> is rejected, with the store unchanged, exactly when no record has
  the given id. If a record has it, whatever its lifecycle state, the call is accepted:
  one record is appended, Active and with the id the reply names, and the supersedes edge
  from it to the given id is in \<open>relations\<close>.
\<close>

theorem correct_rejects_only_unknown_id:
  "(if \<exists>m\<in>set (memories s). mem_id m = i
    then \<exists>n. correct i new_content reason ts session s
                = (Superseded i n new_content, snd (correct i new_content reason ts session s))
            \<and> length (memories (snd (correct i new_content reason ts session s)))
                = length (memories s) + 1
            \<and> mem_id (last (memories (snd (correct i new_content reason ts session s)))) = n
            \<and> superseded_by (last (memories (snd (correct i new_content reason ts session s)))) = None
            \<and> (n, i, ''supersedes'') \<in> set (relations (snd (correct i new_content reason ts session s)))
    else correct i new_content reason ts session s = (NotFound i, s))"
proof (cases "\<exists>m\<in>set (memories s). mem_id m = i")
  case True
  then obtain old where "find (\<lambda>m. mem_id m = i) (memories s) = Some old"
    using find_Some_ex [of "memories s" "\<lambda>m. mem_id m = i"] by blast
  moreover have "i \<noteq> last_rowid (memories s) + 1"
    using True last_rowid_fresh by fastforce
  ultimately show ?thesis using True
    by (simp add: correct_def Let_def insert_or_ignore_def)
next
  case False
  then have "find (\<lambda>m. mem_id m = i) (memories s) = None"
    by (intro find_None_id) blast
  then show ?thesis using False by (simp add: correct_def)
qed

theorem correct_rejects_only_unknown_id_witness:
  "correct 7 ''Uses spaces'' None 2000 None retired_store = (NotFound 7, retired_store)
   \<and> length (memories (snd (correct 1 ''Uses spaces'' None 2000 None retired_store))) = 2"
  using correct_rejects_only_unknown_id [of retired_store 7 "''Uses spaces''" None 2000 None]
    correct_rejects_only_unknown_id [of retired_store 1 "''Uses spaces''" None 2000 None]
  by (simp add: example_defs)

text \<open>
  C7: if every record with the given id is Superseded or Retired, \<open>forget\<close> answers
  "not found or already forgotten" and returns the store as it was. In every case the
  tags, the relations and the number of records are unchanged, and a record that differs
  afterwards had the given id, was Active, and differs only in \<open>superseded_by\<close>, now its
  own id (Retired).
\<close>

theorem forget_only_active:
  assumes ids: "distinct (map mem_id (memories s))"
    and res: "forget i s = (r, s')"
  shows "((\<forall>m\<in>set (memories s). mem_id m = i \<longrightarrow> superseded_by m \<noteq> None)
            \<longrightarrow> r = NotFoundOrForgotten i \<and> s' = s)
         \<and> length (memories s') = length (memories s)
         \<and> tags s' = tags s \<and> relations s' = relations s
         \<and> (\<forall>j<length (memories s). memories s' ! j \<noteq> memories s ! j \<longrightarrow>
               mem_id (memories s ! j) = i \<and> superseded_by (memories s ! j) = None
               \<and> memories s' ! j = (memories s ! j)\<lparr>superseded_by := Some i\<rparr>)"
proof (cases "find (\<lambda>m. mem_id m = i \<and> superseded_by m = None) (memories s)")
  case None
  then have "r = NotFoundOrForgotten i" "s' = s" using res by (simp_all add: forget_def)
  then show ?thesis by simp
next
  case (Some e)
  then have e: "e \<in> set (memories s)" "mem_id e = i" "superseded_by e = None"
    using find_Some_sat [of "\<lambda>m. mem_id m = i \<and> superseded_by m = None" "memories s" e]
    by simp_all
  have s': "s' = s\<lparr>memories := map (\<lambda>m. if mem_id m = i then m\<lparr>superseded_by := Some (mem_id m)\<rparr>
                                        else m) (memories s)\<rparr>"
    using res Some by (simp add: forget_def)
  have inj: "inj_on mem_id (set (memories s))" using ids by (simp add: distinct_map)
  have only: "m = e" if "m \<in> set (memories s)" "mem_id m = i" for m
    using inj that e by (auto dest: inj_onD)
  have active: "\<not> (\<forall>m\<in>set (memories s). mem_id m = i \<longrightarrow> superseded_by m \<noteq> None)"
    using e by blast
  have rest: "length (memories s') = length (memories s)" "tags s' = tags s"
    "relations s' = relations s"
    by (simp_all add: s')
  have changed: "\<forall>j<length (memories s). memories s' ! j \<noteq> memories s ! j \<longrightarrow>
               mem_id (memories s ! j) = i \<and> superseded_by (memories s ! j) = None
               \<and> memories s' ! j = (memories s ! j)\<lparr>superseded_by := Some i\<rparr>"
  proof (intro allI impI)
    fix j assume j: "j < length (memories s)" and ne: "memories s' ! j \<noteq> memories s ! j"
    then have i: "mem_id (memories s ! j) = i" by (auto simp: s' split: if_splits)
    then have "memories s ! j = e" using only j by simp
    then show "mem_id (memories s ! j) = i \<and> superseded_by (memories s ! j) = None
               \<and> memories s' ! j = (memories s ! j)\<lparr>superseded_by := Some i\<rparr>"
      using e j by (simp add: s')
  qed
  show ?thesis using active rest changed by blast
qed

theorem forget_only_active_witness:
  "distinct (map mem_id (memories retired_store))
   \<and> forget 1 retired_store = (NotFoundOrForgotten 1, retired_store)"
proof -
  have h1: "distinct (map mem_id (memories retired_store))" by (simp add: example_defs)
  have h2: "forget 1 retired_store = (fst (forget 1 retired_store), snd (forget 1 retired_store))"
    by simp
  have non_active: "\<forall>m\<in>set (memories retired_store). mem_id m = 1 \<longrightarrow> superseded_by m \<noteq> None"
    by (simp add: example_defs)
  from forget_only_active [OF h1 h2] non_active
  have "fst (forget 1 retired_store) = NotFoundOrForgotten 1 \<and> snd (forget 1 retired_store) = retired_store"
    by blast
  then have "forget 1 retired_store = (NotFoundOrForgotten 1, retired_store)"
    by (simp add: prod_eq_iff)
  then show ?thesis using h1 by simp
qed

text \<open>
  C8 fails on the code: \<open>forget 1\<close> on \<open>example_store\<close> changes \<open>superseded_by\<close> of record 1
  and nothing else, so \<open>updated_at\<close> is still 1000; \<open>correct\<close> at time 2000 sets
  \<open>superseded_by\<close> of record 1 to 2 and leaves its \<open>updated_at\<close> at 1000 as well.
\<close>

theorem forget_correct_keep_updated_at:
  "memories (snd (forget 1 example_store)) =
     [example_memory\<lparr>superseded_by := Some 1\<rparr>]
   \<and> updated_at (hd (memories (snd (forget 1 example_store)))) = 1000
   \<and> hd (memories (snd (correct 1 ''Uses spaces'' None 2000 None example_store))) =
       example_memory\<lparr>superseded_by := Some 2\<rparr>
   \<and> updated_at (hd (memories (snd (correct 1 ''Uses spaces'' None 2000 None example_store)))) = 1000"
  by (simp add: example_defs forget_def correct_def last_rowid_def insert_or_ignore_def truthy_def Let_def)

section \<open>Properties of the scoring function\<close>

lemma or_default_ge0: "opt_ge0 x \<Longrightarrow> 0 \<le> d \<Longrightarrow> 0 \<le> or_default x (d::'a::{zero,order})"
  by (cases x) (auto simp: opt_ge0_def or_default_def)

lemma or_default_Some_int [simp]: "or_default (Some (a::int)) 0 = a"
  by (simp add: or_default_def)

lemma time_decay_ge0: "0 \<le> time_decay now c"
  by (cases c) (simp_all add: time_decay_def)

lemma time_decay_antimono:
  assumes "now - c1 \<le> now - c2"
  shows "time_decay now (Some c2) \<le> time_decay now (Some c1)"
proof -
  have "hours_old now c1 \<le> hours_old now c2"
    using assms by (simp add: hours_old_def divide_right_mono)
  then have "max (hours_old now c1) 0 \<le> max (hours_old now c2) 0" by simp
  then have "(0.998::real) powr max (hours_old now c2) 0 \<le> 0.998 powr max (hours_old now c1) 0"
    by (rule powr_mono') simp_all
  then show ?thesis by (simp add: time_decay_def)
qed

text \<open>
  C9: for a row whose importance, confidence and access count are not negative, the score
  does not grow when the record gets older (a well-formed \<open>created_at\<close> further in the past,
  everything else fixed), and does not shrink when the access count grows (everything else
  fixed). A timestamp that does not parse gives the decay factor 0.5, and the score is then
  the product of the other three factors and 0.5. For importance and confidence other than
  zero the score is
  \<open>importance * confidence * (1 + access_count * 0.1) * 0.998 ^ age in hours\<close>, the age
  counted as zero when \<open>created_at\<close> lies in the future. Numbers are real numbers.
\<close>

theorem score_memory_monotone:
  assumes imp: "opt_ge0 (row_importance r)" and conf: "opt_ge0 (row_confidence r)"
    and acc: "opt_ge0 (row_access_count r)"
  shows "(now - c1 \<le> now - c2 \<longrightarrow>
            score_memory now (r\<lparr>row_created_at := Some c2\<rparr>)
              \<le> score_memory now (r\<lparr>row_created_at := Some c1\<rparr>))
       \<and> (a1 \<le> a2 \<longrightarrow>
            score_memory now (r\<lparr>row_access_count := Some a1\<rparr>)
              \<le> score_memory now (r\<lparr>row_access_count := Some a2\<rparr>))
       \<and> time_decay now None = 0.5
       \<and> score_memory now (r\<lparr>row_created_at := None\<rparr>) =
           or_default (row_importance r) 0.5 * or_default (row_confidence r) 0.8
             * (1 + real_of_int (or_default (row_access_count r) 0) * 0.1) * 0.5
       \<and> (i \<noteq> 0 \<and> c \<noteq> 0 \<longrightarrow>
            score_memory now \<lparr>row_importance = Some i, row_confidence = Some c,
                               row_access_count = Some a, row_created_at = Some t\<rparr> =
              i * c * (1 + real_of_int a * 0.1) * 0.998 powr max (hours_old now t) 0)"
proof -
  let ?i = "or_default (row_importance r) 0.5"
  let ?c = "or_default (row_confidence r) 0.8"
  let ?a = "or_default (row_access_count r) 0"
  have i: "0 \<le> ?i" using imp by (rule or_default_ge0) simp
  have c: "0 \<le> ?c" using conf by (rule or_default_ge0) simp
  have a: "0 \<le> ?a" using acc by (rule or_default_ge0) simp
  have ic: "0 \<le> ?i * ?c" using i c by simp
  have f: "0 \<le> 1 + real_of_int ?a * 0.1" using a by simp
  have age: "score_memory now (r\<lparr>row_created_at := Some c2\<rparr>)
               \<le> score_memory now (r\<lparr>row_created_at := Some c1\<rparr>)"
    if "now - c1 \<le> now - c2"
  proof -
    have "0 \<le> ?i * ?c * (1 + real_of_int ?a * 0.1)" using ic f by simp
    then have "?i * ?c * (1 + real_of_int ?a * 0.1) * time_decay now (Some c2)
             \<le> ?i * ?c * (1 + real_of_int ?a * 0.1) * time_decay now (Some c1)"
      using time_decay_antimono [OF that] by (rule mult_left_mono [rotated])
    then show ?thesis by (simp add: score_memory_def)
  qed
  have access: "score_memory now (r\<lparr>row_access_count := Some a1\<rparr>)
               \<le> score_memory now (r\<lparr>row_access_count := Some a2\<rparr>)"
    if "a1 \<le> a2"
  proof -
    let ?d = "time_decay now (row_created_at r)"
    have "1 + real_of_int a1 * 0.1 \<le> 1 + real_of_int a2 * 0.1" using that by simp
    then have "?i * ?c * (1 + real_of_int a1 * 0.1) \<le> ?i * ?c * (1 + real_of_int a2 * 0.1)"
      using ic by (rule mult_left_mono)
    then have "?i * ?c * (1 + real_of_int a1 * 0.1) * ?d \<le> ?i * ?c * (1 + real_of_int a2 * 0.1) * ?d"
      using time_decay_ge0 by (rule mult_right_mono)
    then show ?thesis by (simp add: score_memory_def)
  qed
  have fallback: "time_decay now None = 0.5" by (simp add: time_decay_def)
  have missing: "score_memory now (r\<lparr>row_created_at := None\<rparr>) =
           ?i * ?c * (1 + real_of_int ?a * 0.1) * 0.5"
    by (simp add: score_memory_def time_decay_def)
  have formula: "score_memory now \<lparr>row_importance = Some i, row_confidence = Some c,
                               row_access_count = Some a, row_created_at = Some t\<rparr> =
              i * c * (1 + real_of_int a * 0.1) * 0.998 powr max (hours_old now t) 0"
    if "i \<noteq> 0 \<and> c \<noteq> 0"
    using that by (simp add: score_memory_def time_decay_def or_default_def)
  show ?thesis using age access fallback missing formula by blast
qed

theorem score_memory_monotone_witness:
  "opt_ge0 (row_importance example_row) \<and> opt_ge0 (row_confidence example_row)
   \<and> opt_ge0 (row_access_count example_row)
   \<and> score_memory 7200000000 (example_row\<lparr>row_created_at := Some 0\<rparr>)
       \<le> score_memory 7200000000 (example_row\<lparr>row_created_at := Some 3600000000\<rparr>)
   \<and> score_memory 7200000000 (example_row\<lparr>row_access_count := Some 2\<rparr>)
       \<le> score_memory 7200000000 (example_row\<lparr>row_access_count := Some 3\<rparr>)
   \<and> score_memory 7200000000 (example_row\<lparr>row_created_at := None\<rparr>) = 0.24"
proof -
  have h1: "opt_ge0 (row_importance example_row)" by (simp add: example_row_def opt_ge0_def)
  have h2: "opt_ge0 (row_confidence example_row)" by (simp add: example_row_def opt_ge0_def)
  have h3: "opt_ge0 (row_access_count example_row)" by (simp add: example_row_def opt_ge0_def)
  have v: "or_default (row_importance example_row) 0.5 * or_default (row_confidence example_row) 0.8
             * (1 + real_of_int (or_default (row_access_count example_row) 0) * 0.1) * 0.5 = 0.24"
    by (simp add: example_row_def or_default_def)
  show ?thesis
    using h1 h2 h3 v
      score_memory_monotone [OF h1 h2 h3, where now = 7200000000 and ?c1.0 = 3600000000
        and ?c2.0 = 0 and ?a1.0 = 2 and ?a2.0 = 3 and i = 1 and c = 1 and a = 0 and t = 0]
    by simp
qed


section \<open>Properties of the read paths\<close>

lemmas project_defs = example_memory_def other_memory_def global_memory_def project_store_def

lemma set_sql_limit: "set (sql_limit n xs) \<subseteq> set xs"
  by (auto simp: sql_limit_def dest: in_set_takeD)

lemma sql_limit_negative: "n < 0 \<Longrightarrow> sql_limit n xs = xs"
  by (simp add: sql_limit_def)

lemma in_sql_limit: "x \<in> set (sql_limit n xs) \<Longrightarrow> x \<in> set xs"
  by (rule subsetD [OF set_sql_limit])

lemma list_memories_perm:
  "\<exists>ys. list_memories cat proj limit sort_by s = sql_limit limit ys
      \<and> set ys = set (filter (\<lambda>m. superseded_by m = None \<and> category_cond cat m
                                  \<and> project_cond proj m) (memories s))"
proof -
  let ?rows = "filter (\<lambda>m. superseded_by m = None \<and> category_cond cat m
                                  \<and> project_cond proj m) (memories s)"
  define ordered where "ordered =
            (if sort_by = ''recency'' then sort_key (\<lambda>m. - created_at m) ?rows
             else if sort_by = ''importance'' then sort_key (\<lambda>m. - importance m) ?rows
             else if sort_by = ''accessed'' then sort_key (\<lambda>m. - access_count m) ?rows
             else sort_key (\<lambda>m. - (importance m * confidence m
                                     * (1.0 + real_of_int (access_count m) * 0.1))) ?rows)"
  have "set ordered = set ?rows" unfolding ordered_def by (simp del: set_filter)
  moreover have "list_memories cat proj limit sort_by s = sql_limit limit ordered"
    unfolding list_memories_def Let_def ordered_def ..
  ultimately show ?thesis by blast
qed

lemma in_list_memories:
  "m \<in> set (list_memories cat proj limit sort_by s) \<Longrightarrow>
     m \<in> set (memories s) \<and> superseded_by m = None \<and> category_cond cat m \<and> project_cond proj m"
proof -
  assume "m \<in> set (list_memories cat proj limit sort_by s)"
  then obtain ys where "m \<in> set (sql_limit limit ys)"
    and "set ys = set (filter (\<lambda>m. superseded_by m = None \<and> category_cond cat m
                                  \<and> project_cond proj m) (memories s))"
    using list_memories_perm [of cat proj limit sort_by s] by auto
  then show ?thesis using in_sql_limit [of m limit ys] by simp
qed

lemma set_list_memories_unlimited:
  "limit < 0 \<Longrightarrow> set (list_memories cat proj limit sort_by s)
     = {m \<in> set (memories s). superseded_by m = None \<and> category_cond cat m \<and> project_cond proj m}"
  using list_memories_perm [of cat proj limit sort_by s] by (auto simp: sql_limit_negative)

lemma in_recall:
  assumes "recall fts q cat proj limit inc ts s = Inr (rows, s')" and "m \<in> set rows"
  shows "m \<in> set (memories s) \<and> category_cond cat m \<and> project_cond proj m"
proof -
  obtain ranked where r: "fts q = Some ranked"
    using assms(1) by (cases "fts q") (simp_all add: recall_def)
  let ?matching = "concat (map (\<lambda>rid. filter (\<lambda>m. mem_id m = rid
                                              \<and> (inc \<or> superseded_by m = None)
                                              \<and> category_cond cat m \<and> project_cond proj m)
                                       (memories s)) ranked)"
  have "rows = sql_limit limit (concat (map (\<lambda>rid. filter (\<lambda>m. mem_id m = rid
                                              \<and> (inc \<or> superseded_by m = None)
                                              \<and> category_cond cat m \<and> project_cond proj m)
                                       (memories s)) ranked))"
    using assms(1) r by (simp add: recall_def Let_def)
  then have "m \<in> set (sql_limit limit ?matching)" using assms(2) by simp
  then have "m \<in> set ?matching" by (rule in_sql_limit)
  then show ?thesis by auto
qed

text \<open>
  C10 as stated fails: the empty string is a project filter that is not null, and with it
  both \<open>list_memories\<close> and \<open>recall\<close> return the memory of project \<open>webshop\<close>.
\<close>

theorem empty_project_filter_counterexample:
  "Some '''' \<noteq> (None :: string option)
   \<and> project other_memory = Some ''webshop''
   \<and> other_memory \<in> set (list_memories None (Some '''') 20 ''score'' project_store)
   \<and> other_memory \<in> set (fst (projr (recall fts_all ''main'' None (Some '''') 10 False 3000 project_store)))"
  by (simp add: project_defs list_memories_def recall_def fts_all_def sql_limit_def
      category_cond_def project_cond_def truthy_def Let_def)

text \<open>
  C10, amended: for a project filter that is neither null nor the empty string, every
  record that \<open>recall\<close> or \<open>list_memories\<close> returns has that project or no project. A
  global Active record that passes the category filter is returned by \<open>list_memories\<close> when
  no limit cuts the result, and by \<open>recall\<close> when moreover the index matches it.
\<close>

theorem project_filter_scope:
  assumes p: "p \<noteq> []"
  shows "(recall fts q cat (Some p) limit inc ts s = Inr (rows, s') \<longrightarrow>
            (\<forall>m\<in>set rows. project m = Some p \<or> project m = None))
       \<and> (\<forall>m\<in>set (list_memories cat (Some p) limit sort_by s).
            project m = Some p \<or> project m = None)
       \<and> (g \<in> set (memories s) \<and> superseded_by g = None \<and> project g = None
            \<and> category_cond cat g \<and> limit < 0
          \<longrightarrow> g \<in> set (list_memories cat (Some p) limit sort_by s))
       \<and> (g \<in> set (memories s) \<and> superseded_by g = None \<and> project g = None
            \<and> category_cond cat g \<and> limit < 0 \<and> fts q = Some ranked \<and> mem_id g \<in> set ranked
          \<longrightarrow> g \<in> set (fst (projr (recall fts q cat (Some p) limit inc ts s))))"
proof -
  have cond: "project_cond (Some p) m \<longleftrightarrow> project m = Some p \<or> project m = None" for m
    using p by (simp add: project_cond_def truthy_def)
  have a: "recall fts q cat (Some p) limit inc ts s = Inr (rows, s') \<longrightarrow>
            (\<forall>m\<in>set rows. project m = Some p \<or> project m = None)"
  proof (intro impI ballI)
    fix m assume "recall fts q cat (Some p) limit inc ts s = Inr (rows, s')" and "m \<in> set rows"
    then have "project_cond (Some p) m" by (rule in_recall [THEN conjunct2, THEN conjunct2])
    then show "project m = Some p \<or> project m = None" by (simp add: cond)
  qed
  have b: "\<forall>m\<in>set (list_memories cat (Some p) limit sort_by s).
            project m = Some p \<or> project m = None"
  proof
    fix m assume "m \<in> set (list_memories cat (Some p) limit sort_by s)"
    then have "project_cond (Some p) m"
      by (rule in_list_memories [THEN conjunct2, THEN conjunct2, THEN conjunct2])
    then show "project m = Some p \<or> project m = None" by (simp add: cond)
  qed
  have c: "g \<in> set (memories s) \<and> superseded_by g = None \<and> project g = None
            \<and> category_cond cat g \<and> limit < 0
          \<longrightarrow> g \<in> set (list_memories cat (Some p) limit sort_by s)"
    by (simp add: set_list_memories_unlimited cond)
  have d: "g \<in> set (memories s) \<and> superseded_by g = None \<and> project g = None
            \<and> category_cond cat g \<and> limit < 0 \<and> fts q = Some ranked \<and> mem_id g \<in> set ranked
          \<longrightarrow> g \<in> set (fst (projr (recall fts q cat (Some p) limit inc ts s)))"
    by (simp add: recall_def Let_def sql_limit_negative cond)
  show ?thesis using a b c d by blast
qed

theorem project_filter_scope_witness:
  "''mnemon'' \<noteq> []
   \<and> list_memories None (Some ''mnemon'') 20 ''recency'' project_store = [global_memory, example_memory]
   \<and> global_memory \<in> set (list_memories None (Some ''mnemon'') (- 1) ''score'' project_store)
   \<and> other_memory \<notin> set (list_memories None (Some ''mnemon'') 20 ''score'' project_store)
   \<and> fst (projr (recall fts_all ''main'' None (Some ''mnemon'') 10 False 3000 project_store))
       = [global_memory, example_memory]"
proof -
  have h: "''mnemon'' \<noteq> []" by simp
  have v: "list_memories None (Some ''mnemon'') 20 ''recency'' project_store = [global_memory, example_memory]"
    by (simp add: project_defs list_memories_def sql_limit_def
      category_cond_def project_cond_def truthy_def Let_def)
  have o: "project other_memory \<noteq> Some ''mnemon'' \<and> project other_memory \<noteq> None"
    by (simp add: project_defs)
  have g: "global_memory \<in> set (memories project_store) \<and> superseded_by global_memory = None
           \<and> project global_memory = None \<and> category_cond None global_memory \<and> (- 1 :: int) < 0"
    by (simp add: project_defs category_cond_def truthy_def)
  have b: "\<forall>m\<in>set (list_memories None (Some ''mnemon'') 20 ''score'' project_store).
             project m = Some ''mnemon'' \<or> project m = None"
    by (rule project_filter_scope [OF h, THEN conjunct2, THEN conjunct1])
  have c: "global_memory \<in> set (list_memories None (Some ''mnemon'') (- 1) ''score'' project_store)"
    using g project_filter_scope [OF h, THEN conjunct2, THEN conjunct2, THEN conjunct1,
        of global_memory project_store None "- 1" "''score''"]
    by simp
  have n: "other_memory \<notin> set (list_memories None (Some ''mnemon'') 20 ''score'' project_store)"
    using b o by auto
  have r: "fst (projr (recall fts_all ''main'' None (Some ''mnemon'') 10 False 3000 project_store))
       = [global_memory, example_memory]"
    by (simp add: project_defs recall_def fts_all_def sql_limit_def
      category_cond_def project_cond_def truthy_def Let_def)
  show ?thesis by (intro conjI h v c n r)
qed

section \<open>Properties of the consolidation sweep\<close>

lemma row_of_mark [simp]: "row_of (mark now k m) = row_of m"
  by (simp add: row_of_def mark_def)

lemma mem_id_mark [simp]: "mem_id (mark now k m) = mem_id m"
  by (simp add: mark_def)

lemma mark_mark [simp]: "mark now k (mark now k m) = mark now k m"
  by (simp add: mark_def)

lemma row_of_upd_group [simp]: "row_of (upd_group now ids k m) = row_of m"
  by (simp add: upd_group_def)

lemma mem_id_upd_group [simp]: "mem_id (upd_group now ids k m) = mem_id m"
  by (simp add: upd_group_def)

lemma select_rows_row_of: "select_rows ids ms = filter (\<lambda>r. fst r \<in> set ids) (map row_of ms)"
  by (simp add: select_rows_def filter_map comp_def row_of_def)

lemma supersede_rest_eq:
  "supersede_rest now k rows ms =
     map (\<lambda>m. if mem_id m \<in> fst ` set rows \<and> mem_id m \<noteq> k then mark now k m else m) ms"
proof (induction rows arbitrary: ms)
  case Nil
  show ?case by simp
next
  case (Cons r rows)
  show ?case
    by (simp add: Cons.IH set_superseded_def mark_def [symmetric]) (auto simp: mark_def)
qed

lemma max_from_mem: "max_from b rs \<in> set (b # rs)"
  by (induction rs arbitrary: b) (auto split: if_splits)

lemma key_less_trans: "key_less a b \<Longrightarrow> key_less b c \<Longrightarrow> key_less a c"
  by (auto simp: key_less_def)

lemma max_from_ge_best: "\<not> key_less (max_from b rs) b"
proof (induction rs arbitrary: b)
  case Nil
  show ?case by (simp add: key_less_def)
next
  case (Cons r rs)
  show ?case
  proof (cases "key_less b r")
    case True
    have "\<not> key_less (max_from r rs) r" by (rule Cons.IH)
    with True show ?thesis by (auto dest: key_less_trans simp: key_less_def)
  next
    case False
    then show ?thesis using Cons.IH [of b] by simp
  qed
qed

lemma max_from_max: "r \<in> set (b # rs) \<Longrightarrow> \<not> key_less (max_from b rs) r"
proof (induction rs arbitrary: b)
  case Nil
  then show ?case by (simp add: key_less_def)
next
  case (Cons x rs)
  show ?case
  proof (cases "r = b")
    case True
    then show ?thesis using max_from_ge_best [of b "x # rs"] by simp
  next
    case False
    with Cons.prems have "r \<in> set (x # rs)" by simp
    then show ?thesis
    proof (cases "key_less b x")
      case True
      then show ?thesis using Cons.IH [of x] \<open>r \<in> set (x # rs)\<close> by simp
    next
      case nl: False
      show ?thesis
      proof (cases "r = x")
        case True
        have "\<not> key_less (max_from b rs) b" by (rule max_from_ge_best)
        with nl True show ?thesis by (auto simp: key_less_def)
      next
        case False
        with \<open>r \<in> set (x # rs)\<close> have "r \<in> set (b # rs)" by simp
        then show ?thesis using Cons.IH [of b] nl by simp
      qed
    qed
  qed
qed

lemma dedup_group_eq:
  assumes "select_rows ids ms \<noteq> []"
  shows "dedup_group now ids ms =
           Inr (map (upd_group now ids (keeper_of (select_rows ids ms))) ms)"
proof -
  obtain r rs where rows: "select_rows ids ms = r # rs"
    using assms by (cases "select_rows ids ms") auto
  have "\<And>m. m \<in> set ms \<Longrightarrow> (mem_id m \<in> fst ` set (select_rows ids ms)) = (mem_id m \<in> set ids)"
    by (auto simp: select_rows_def image_iff)
  then have "map (\<lambda>m. if mem_id m \<in> fst ` set (select_rows ids ms) \<and> mem_id m \<noteq> k
                       then mark now k m else m) ms = map (upd_group now ids k) ms" for k
    by (simp add: upd_group_def cong: map_cong)
  then show ?thesis
    using rows by (simp add: dedup_group_def max_row_def keeper_of_def supersede_rest_eq Let_def)
qed

lemma dedup_loop_eq:
  assumes "\<forall>ids\<in>set gs. select_rows ids ms0 \<noteq> []" and "map row_of ms = map row_of ms0"
  shows "dedup_loop now gs ms =
           Inr (map (\<lambda>m. fold (\<lambda>ids. upd_group now ids (keeper_of (select_rows ids ms0))) gs m) ms)"
  using assms
proof (induction gs arbitrary: ms)
  case Nil
  show ?case by simp
next
  case (Cons ids gs)
  have same: "select_rows ids ms = select_rows ids ms0" for ids
    using Cons.prems(2) by (simp add: select_rows_row_of)
  have ne: "select_rows ids ms \<noteq> []" using Cons.prems(1) same by simp
  let ?ms' = "map (upd_group now ids (keeper_of (select_rows ids ms0))) ms"
  have step: "dedup_group now ids ms = Inr ?ms'"
    using dedup_group_eq [OF ne] same by simp
  have sig: "map row_of ?ms' = map row_of ms0"
    using Cons.prems(2) by (simp add: comp_def)
  have "dedup_loop now gs ?ms' =
          Inr (map (\<lambda>m. fold (\<lambda>ids. upd_group now ids (keeper_of (select_rows ids ms0))) gs m) ?ms')"
    using Cons.IH [OF _ sig] Cons.prems(1) by simp
  then show ?case using step by (simp add: comp_def)
qed


lemma dupes_group_ids:
  "dupes ms = filter (\<lambda>ids. 1 < length ids)
                (map (group_ids ms) (remdups (map content_key (filter is_active ms))))"
  by (simp add: dupes_def Let_def group_ids_def [abs_def])

lemma mem_group_ids:
  assumes "distinct (map mem_id ms)" and "m \<in> set ms"
  shows "mem_id m \<in> set (group_ids ms k) \<longleftrightarrow> is_active m \<and> content_key m = k"
proof -
  have inj: "inj_on mem_id (set ms)" using assms(1) by (simp add: distinct_map)
  show ?thesis
  proof
    assume "mem_id m \<in> set (group_ids ms k)"
    then obtain x where x: "x \<in> set ms" "is_active x" "content_key x = k" "mem_id x = mem_id m"
      by (auto simp: group_ids_def)
    with inj assms(2) have "x = m" by (auto dest: inj_onD)
    with x show "is_active m \<and> content_key m = k" by simp
  next
    assume "is_active m \<and> content_key m = k"
    with assms(2) show "mem_id m \<in> set (group_ids ms k)" by (auto simp: group_ids_def)
  qed
qed

lemma select_rows_group_ids:
  assumes "distinct (map mem_id ms)"
  shows "select_rows (group_ids ms k) ms =
           map row_of (filter (\<lambda>x. is_active x \<and> content_key x = k) ms)"
proof -
  have "filter (\<lambda>m. mem_id m \<in> set (group_ids ms k)) ms =
        filter (\<lambda>x. is_active x \<and> content_key x = k) ms"
    by (rule filter_cong) (simp_all add: mem_group_ids [OF assms])
  then show ?thesis by (simp add: select_rows_def row_of_def)
qed

lemma length_group_ids:
  "length (group_ids ms k) = length (filter (\<lambda>x. is_active x \<and> content_key x = k) ms)"
  by (simp add: group_ids_def conj_commute)

lemma fold_groups:
  assumes "distinct (map mem_id ms)" and "m \<in> set ms" and "mem_id m' = mem_id m"
    and "distinct ks"
  shows "fold (\<lambda>ids. upd_group now ids (kf ids))
           (filter (\<lambda>ids. 1 < length ids) (map (group_ids ms) ks)) m' =
         (if is_active m \<and> content_key m \<in> set ks \<and> 1 < length (group_ids ms (content_key m))
          then upd_group now (group_ids ms (content_key m)) (kf (group_ids ms (content_key m))) m'
          else m')"
  using assms(3,4)
proof (induction ks arbitrary: m')
  case Nil
  show ?case by simp
next
  case (Cons k ks)
  have dks: "distinct ks" and k: "k \<notin> set ks" using Cons.prems(2) by simp_all
  show ?case
  proof (cases "is_active m \<and> content_key m = k")
    case True
    then have notin: "content_key m \<notin> set ks" using k by simp
    show ?thesis
    proof (cases "1 < length (group_ids ms k)")
      case long: True
      have id': "mem_id (upd_group now (group_ids ms k) (kf (group_ids ms k)) m') = mem_id m"
        using Cons.prems(1) by simp
      show ?thesis using True long notin Cons.IH [OF id' dks] by simp
    next
      case False
      then show ?thesis using True notin Cons.IH [OF Cons.prems(1) dks] by simp
    qed
  next
    case False
    then have "mem_id m \<notin> set (group_ids ms k)"
      using mem_group_ids [OF assms(1,2)] by blast
    then have same: "upd_group now (group_ids ms k) x m' = m'" for x
      using Cons.prems(1) by (simp add: upd_group_def)
    show ?thesis using False same Cons.IH [OF Cons.prems(1) dks] by auto
  qed
qed

lemma dedup_pass_eq:
  assumes "distinct (map mem_id ms)"
  shows "dedup_pass now ms =
           Inr (map (\<lambda>m. if is_active m \<and> mem_id m \<noteq> keeper_of (map row_of (dup_group ms m))
                          then mark now (keeper_of (map row_of (dup_group ms m))) m
                          else m) ms)"
proof -
  let ?ks = "remdups (map content_key (filter is_active ms))"
  let ?gs = "filter (\<lambda>ids. 1 < length ids) (map (group_ids ms) ?ks)"
  let ?kf = "\<lambda>ids. keeper_of (select_rows ids ms)"
  have ne: "\<forall>ids\<in>set ?gs. select_rows ids ms \<noteq> []"
  proof
    fix ids assume "ids \<in> set ?gs"
    then obtain k where ids: "ids = group_ids ms k" and len: "1 < length ids" by auto
    then have "filter (\<lambda>x. is_active x \<and> content_key x = k) ms \<noteq> []"
      using length_group_ids [of ms k] by auto
    then show "select_rows ids ms \<noteq> []"
      using ids select_rows_group_ids [OF assms, of k] by simp
  qed
  have loop: "dedup_pass now ms = Inr (map (\<lambda>m. fold (\<lambda>ids. upd_group now ids (?kf ids)) ?gs m) ms)"
    unfolding dedup_pass_def dupes_group_ids
    by (rule dedup_loop_eq [OF ne]) simp
  have each: "fold (\<lambda>ids. upd_group now ids (?kf ids)) ?gs m =
                (if is_active m \<and> mem_id m \<noteq> keeper_of (map row_of (dup_group ms m))
                 then mark now (keeper_of (map row_of (dup_group ms m))) m else m)"
    if m: "m \<in> set ms" for m
  proof -
    let ?g = "group_ids ms (content_key m)"
    have f: "fold (\<lambda>ids. upd_group now ids (?kf ids)) ?gs m =
          (if is_active m \<and> content_key m \<in> set ?ks \<and> 1 < length ?g
           then upd_group now ?g (?kf ?g) m else m)"
      by (rule fold_groups [OF assms m]) simp_all
    have kf: "?kf ?g = keeper_of (map row_of (dup_group ms m))"
      by (simp add: select_rows_group_ids [OF assms] dup_group_def)
    show ?thesis
    proof (cases "is_active m")
      case False
      then show ?thesis using f by simp
    next
      case True
      then have inks: "content_key m \<in> set ?ks" using m by auto
      have ing: "mem_id m \<in> set ?g" using mem_group_ids [OF assms m] True by simp
      show ?thesis
      proof (cases "1 < length ?g")
        case long: True
        then show ?thesis using f True inks ing kf by (simp add: upd_group_def)
      next
        case False
        have "m \<in> set (dup_group ms m)" using m True by (simp add: dup_group_def)
        moreover have "length (dup_group ms m) \<le> 1"
          using False length_group_ids [of ms "content_key m"] by (simp add: dup_group_def)
        ultimately have "dup_group ms m = [m]"
          by (cases "dup_group ms m") auto
        then have "keeper_of (map row_of (dup_group ms m)) = mem_id m"
          by (simp add: keeper_of_def row_of_def)
        then show ?thesis using f False by simp
      qed
    qed
  qed
  have "map (\<lambda>m. fold (\<lambda>ids. upd_group now ids (?kf ids)) ?gs m) ms =
        map (\<lambda>m. if is_active m \<and> mem_id m \<noteq> keeper_of (map row_of (dup_group ms m))
                 then mark now (keeper_of (map row_of (dup_group ms m))) m else m) ms"
    by (rule map_cong [OF refl]) (rule each)
  then show ?thesis unfolding loop by (rule arg_cong)
qed

lemmas sweep_defs = consolidate_def decay_pass_def retire_pass_def dedup_pass_def dupes_def
  decays_def retires_def days_def is_active_def content_key_def dedup_group_def select_rows_def max_row_def key_less_def
  set_superseded_def

lemma key_use_tabs:
  "sql_lower (sql_trim ''Use tabs'') = ''use tabs''"
  "sql_lower (sql_trim '' use TABS '') = ''use tabs''"
  by code_simp+

lemma key_build:
  "sql_lower (sql_trim ''Build with make'') = ''build with make''"
  by code_simp

lemma decays_age:
  "decays now m \<longleftrightarrow>
     is_active m \<and> access_count m = 0 \<and> days 30 < age now m \<and> 0.1 < importance m"
  by (auto simp: decays_def is_active_def age_def)

lemma map_unchanged:
  "(\<And>m. f (g m) = f m) \<Longrightarrow> map f (map g ms) = map f ms"
  by (induction ms) simp_all

lemma retire_pass_map:
  assumes "retire_pass now ms = Inr ms'"
    and "\<And>m a b. f (m\<lparr>superseded_by := a, updated_at := b\<rparr>) = f m"
  shows "map f ms' = map f ms"
proof -
  have "ms' = map (\<lambda>m. if retires now m
                         then m\<lparr>superseded_by := Some (- 1), updated_at := now\<rparr>
                         else m) ms"
    using assms(1) by (simp add: retire_pass_def split: if_splits)
  then show ?thesis using assms(2) by (simp add: map_unchanged)
qed

lemma supersede_rest_map:
  assumes "\<And>m a b. f (m\<lparr>superseded_by := a, updated_at := b\<rparr>) = f m"
  shows "map f (supersede_rest now k rows ms) = map f ms"
  unfolding supersede_rest_eq by (rule map_unchanged) (simp add: mark_def assms)

lemma dedup_group_map:
  assumes "dedup_group now ids ms = Inr ms'"
    and "\<And>m a b. f (m\<lparr>superseded_by := a, updated_at := b\<rparr>) = f m"
  shows "map f ms' = map f ms"
  using assms(1) supersede_rest_map [of f, OF assms(2)]
  by (auto simp: dedup_group_def Let_def split: sum.splits)

lemma dedup_loop_map:
  assumes "dedup_loop now gs ms = Inr ms'"
    and "\<And>m a b. f (m\<lparr>superseded_by := a, updated_at := b\<rparr>) = f m"
  shows "map f ms' = map f ms"
  using assms(1)
proof (induction gs arbitrary: ms)
  case Nil
  then show ?case by simp
next
  case (Cons ids gs)
  then obtain ms1 where g: "dedup_group now ids ms = Inr ms1"
    and l: "dedup_loop now gs ms1 = Inr ms'"
    by (auto split: sum.splits)
  have "map f ms' = map f ms1" by (rule Cons.IH [OF l])
  also have "\<dots> = map f ms" by (rule dedup_group_map [OF g assms(2)])
  finally show ?case .
qed

lemma consolidate_map:
  assumes "consolidate now ms = Inr ms'"
    and "\<And>m a b. f (m\<lparr>superseded_by := a, updated_at := b\<rparr>) = f m"
  shows "map f ms' = map f (decay_pass now ms)"
proof -
  obtain ms2 where r: "retire_pass now (decay_pass now ms) = Inr ms2"
    and d: "dedup_pass now ms2 = Inr ms'"
    using assms(1) by (auto simp: consolidate_def split: sum.splits)
  have "map f ms' = map f ms2"
    using d assms(2) unfolding dedup_pass_def by (rule dedup_loop_map)
  also have "\<dots> = map f (decay_pass now ms)" by (rule retire_pass_map [OF r assms(2)])
  finally show ?thesis .
qed

text \<open>
  C4 as stated fails at the boundary: \<open>boundary_memory\<close> is Active, never accessed, has
  importance 0.5 and is exactly 30 days old (so its age is at least 30 days), and the sweep
  leaves it as it is.
\<close>

theorem decay_boundary_counterexample:
  "is_active boundary_memory \<and> access_count boundary_memory = 0
   \<and> days 30 \<le> age (days 100) boundary_memory \<and> 0.1 < importance boundary_memory
   \<and> decay_pass (days 100) [boundary_memory] = [boundary_memory]
   \<and> consolidate (days 100) [boundary_memory] = Inr [boundary_memory]
   \<and> importance boundary_memory * 0.9 \<noteq> importance boundary_memory"
  by (simp add: sweep_defs boundary_memory_def age_def)

text \<open>
  C4, amended: the decay pass multiplies the importance by 0.9 for exactly the Active
  records with \<open>access_count = 0\<close>, importance above 0.1 and an age of more than 30 days
  (\<open>created_at\<close> strictly before \<open>now - 30 days\<close>); every other record keeps its importance;
  confidence and lifecycle state are untouched. When the sweep completes, the later passes
  change neither importance nor confidence. The 35 days old record with importance 0.5 has
  importance 0.45 after one sweep and is still Active.
\<close>

theorem decay_after_thirty_days:
  "length (decay_pass now ms) = length ms
   \<and> (\<forall>i<length ms.
        importance (decay_pass now ms ! i) =
          (if is_active (ms ! i) \<and> access_count (ms ! i) = 0 \<and> days 30 < age now (ms ! i)
              \<and> 0.1 < importance (ms ! i)
           then importance (ms ! i) * 0.9 else importance (ms ! i))
        \<and> confidence (decay_pass now ms ! i) = confidence (ms ! i)
        \<and> superseded_by (decay_pass now ms ! i) = superseded_by (ms ! i))
   \<and> (consolidate now ms = Inr ms' \<longrightarrow>
        map importance ms' = map importance (decay_pass now ms)
        \<and> map confidence ms' = map confidence ms)"
proof -
  have len: "length (decay_pass now ms) = length ms" by (simp add: decay_pass_def)
  have each: "\<forall>i<length ms.
        importance (decay_pass now ms ! i) =
          (if is_active (ms ! i) \<and> access_count (ms ! i) = 0 \<and> days 30 < age now (ms ! i)
              \<and> 0.1 < importance (ms ! i)
           then importance (ms ! i) * 0.9 else importance (ms ! i))
        \<and> confidence (decay_pass now ms ! i) = confidence (ms ! i)
        \<and> superseded_by (decay_pass now ms ! i) = superseded_by (ms ! i)"
    by (simp add: decay_pass_def decays_age)
  have conf: "map confidence (decay_pass now ms) = map confidence ms"
    unfolding decay_pass_def by (rule map_unchanged) simp
  have sweep: "map importance ms' = map importance (decay_pass now ms)
        \<and> map confidence ms' = map confidence ms" if "consolidate now ms = Inr ms'"
    using consolidate_map [OF that, of importance] consolidate_map [OF that, of confidence] conf
    by simp
  show ?thesis using len each sweep by blast
qed

theorem decay_after_thirty_days_witness:
  "consolidate (days 100) [stale_memory] =
     Inr [stale_memory\<lparr>importance := 0.45, updated_at := days 100\<rparr>]
   \<and> age (days 100) stale_memory = days 35
   \<and> importance stale_memory = 0.5
   \<and> map importance [stale_memory\<lparr>importance := 0.45, updated_at := days 100\<rparr>] = [0.45]
   \<and> importance (decay_pass (days 100) [stale_memory] ! 0) = 0.45
   \<and> superseded_by (stale_memory\<lparr>importance := 0.45, updated_at := days 100\<rparr>) = None"
proof -
  have run: "consolidate (days 100) [stale_memory] =
     Inr [stale_memory\<lparr>importance := 0.45, updated_at := days 100\<rparr>]"
    by (simp add: sweep_defs stale_memory_def)
  have a: "age (days 100) stale_memory = days 35" by (simp add: age_def stale_memory_def days_def)
  have act: "is_active stale_memory \<and> access_count stale_memory = 0
             \<and> importance stale_memory = 0.5"
    by (simp add: stale_memory_def is_active_def)
  from decay_after_thirty_days [of "days 100" "[stale_memory]"
      "[stale_memory\<lparr>importance := 0.45, updated_at := days 100\<rparr>]"]
  have "importance (decay_pass (days 100) [stale_memory] ! 0) = 0.45"
    using a act by (simp add: days_def)
  then show ?thesis using run a act by (simp add: stale_memory_def)
qed

text \<open>
  On a table whose ids are all positive, as AUTOINCREMENT assigns them, the foreign key
  rejects the sentinel \<open>-1\<close> as soon as the retirement UPDATE selects one record.
\<close>

lemma retire_pass_fails:
  assumes "\<exists>m\<in>set ms. retires now m" and "\<forall>m\<in>set ms. 0 < mem_id m"
  shows "retire_pass now ms = Inl IntegrityError"
proof -
  have "(- 1) \<notin> set (map mem_id ms)" using assms(2) by auto
  then show ?thesis using assms(1) by (simp add: retire_pass_def)
qed

text \<open>
  C5 fails on the code: \<open>faded_memory\<close> is Active, has importance 0.05, no access and was
  created 100 days ago, so the decay pass leaves it alone and the retirement UPDATE selects
  it; writing \<open>superseded_by = -1\<close> violates the foreign key, the retirement pass and with
  it the sweep end with \<open>IntegrityError\<close> before the commit, and the record is not Retired
  after one sweep.
\<close>

theorem retire_sentinel_rejected:
  "is_active faded_memory \<and> importance faded_memory = 0.05 \<and> access_count faded_memory = 0
   \<and> age (days 100) faded_memory = days 100
   \<and> decay_pass (days 100) [faded_memory] = [faded_memory]
   \<and> retires (days 100) faded_memory
   \<and> retire_pass (days 100) (decay_pass (days 100) [faded_memory]) = Inl IntegrityError
   \<and> consolidate (days 100) [faded_memory] = Inl IntegrityError"
  by (simp add: sweep_defs faded_memory_def age_def)

text \<open>
  The retirement UPDATE compares \<open>created_at < cutoff_90d\<close> strictly, as the decay UPDATE
  does with its cutoff: a record that is exactly 90 days old is not selected, and the sweep
  completes and leaves it Active.
\<close>

lemma retire_boundary_not_selected:
  "is_active quarter_old_memory \<and> importance quarter_old_memory < 0.1
   \<and> access_count quarter_old_memory = 0 \<and> age (days 100) quarter_old_memory = days 90
   \<and> \<not> retires (days 100) quarter_old_memory
   \<and> consolidate (days 100) [quarter_old_memory] = Inr [quarter_old_memory]"
  by (simp add: sweep_defs quarter_old_memory_def age_def)

lemma is_active_mark [simp]: "\<not> is_active (mark now k m)"
  by (simp add: is_active_def mark_def)

lemma content_key_mark [simp]: "content_key (mark now k m) = content_key m"
  by (simp add: content_key_def mark_def)

lemma in_set_mapI: "x \<in> set xs \<Longrightarrow> f x = y \<Longrightarrow> y \<in> set (map f xs)"
  by auto

lemma dup_group_same:
  "x \<in> set (dup_group ms m) \<Longrightarrow> dup_group ms x = dup_group ms m"
  by (simp add: dup_group_def)

lemma keeper_of_group:
  assumes "g \<noteq> []"
  shows "\<exists>k\<in>set g. keeper_of (map row_of g) = mem_id k
           \<and> (\<forall>x\<in>set g. access_count x < access_count k
                  \<or> (access_count x = access_count k \<and> importance x \<le> importance k))"
proof -
  obtain x0 xs where g: "g = x0 # xs" using assms by (cases g) auto
  let ?r = "max_from (row_of x0) (map row_of xs)"
  have "?r \<in> set (map row_of g)" using max_from_mem [of "row_of x0" "map row_of xs"] g by simp
  then obtain k where k: "k \<in> set g" "row_of k = ?r" by auto
  have top: "\<not> key_less (row_of k) (row_of x)" if "x \<in> set g" for x
    using max_from_max [of "row_of x" "row_of x0" "map row_of xs"] that g k(2) by auto
  have "access_count x < access_count k
          \<or> (access_count x = access_count k \<and> importance x \<le> importance k)"
    if "x \<in> set g" for x
    using top [OF that] by (auto simp: key_less_def row_of_def)
  moreover have "keeper_of (map row_of g) = mem_id k"
  proof -
    have "keeper_of (map row_of g) = fst ?r" by (simp add: keeper_of_def g)
    also have "\<dots> = fst (row_of k)" by (simp add: k(2))
    also have "\<dots> = mem_id k" by (simp add: row_of_def)
    finally show ?thesis .
  qed
  ultimately show ?thesis using k(1) by blast
qed

text \<open>
  C3: in a table with unique ids, let \<open>m\<close> be an Active record whose group (the Active
  records with the same lower-cased, trimmed content) has two or more members. Then the
  deduplication pass succeeds, and the group has a member \<open>k\<close>, the keeper, such that: no
  member has a pair (access\_count, importance) lexicographically above that of \<open>k\<close>; \<open>k\<close>
  is in the result unchanged; every other member is in the result with
  \<open>superseded_by = id of k\<close> (and \<open>updated_at = now\<close>); every record that was not Active before
  the pass, retired ones among them, is in the result unchanged. The record with
  access\_count 3 and importance 0.4 is kept over its duplicate with access\_count 1 and
  importance 0.9.
\<close>

theorem dedup_keeps_most_accessed:
  assumes ids: "distinct (map mem_id ms)" and m: "m \<in> set ms" and act: "is_active m"
    and len: "2 \<le> length (dup_group ms m)"
  shows "\<exists>k\<in>set (dup_group ms m). \<exists>ms'.
           (\<forall>x\<in>set (dup_group ms m).
              access_count x < access_count k
              \<or> (access_count x = access_count k \<and> importance x \<le> importance k))
         \<and> dedup_pass now ms = Inr ms'
         \<and> map mem_id ms' = map mem_id ms
         \<and> k \<in> set ms'
         \<and> (\<forall>x\<in>set (dup_group ms m). mem_id x \<noteq> mem_id k \<longrightarrow>
               x\<lparr>superseded_by := Some (mem_id k), updated_at := now\<rparr> \<in> set ms')
         \<and> (\<forall>x\<in>set ms. \<not> is_active x \<longrightarrow> x \<in> set ms')"
proof -
  let ?g = "dup_group ms m"
  let ?F = "\<lambda>x. if is_active x \<and> mem_id x \<noteq> keeper_of (map row_of (dup_group ms x))
                  then mark now (keeper_of (map row_of (dup_group ms x))) x else x"
  have ne: "?g \<noteq> []" using len by auto
  obtain k where k: "k \<in> set ?g" "keeper_of (map row_of ?g) = mem_id k"
    and top: "\<forall>x\<in>set ?g. access_count x < access_count k
                  \<or> (access_count x = access_count k \<and> importance x \<le> importance k)"
    using keeper_of_group [OF ne] by blast
  have res: "dedup_pass now ms = Inr (map ?F ms)" by (rule dedup_pass_eq [OF ids])
  have sub: "set ?g \<subseteq> set ms" by (auto simp: dup_group_def)
  have key: "keeper_of (map row_of (dup_group ms x)) = mem_id k" if "x \<in> set ?g" for x
    using dup_group_same [OF that] k(2) by simp
  have "?F k = k" using key [OF k(1)] by simp
  moreover have "k \<in> set ms" using k(1) sub by blast
  ultimately have kin: "k \<in> set (map ?F ms)" by (rule in_set_mapI [rotated])
  have others: "x\<lparr>superseded_by := Some (mem_id k), updated_at := now\<rparr> \<in> set (map ?F ms)"
    if "x \<in> set ?g" "mem_id x \<noteq> mem_id k" for x
  proof -
    have "is_active x" using that(1) by (simp add: dup_group_def)
    then have "?F x = x\<lparr>superseded_by := Some (mem_id k), updated_at := now\<rparr>"
      using key [OF that(1)] that(2) by (simp add: mark_def)
    moreover have "x \<in> set ms" using that(1) sub by blast
    ultimately show ?thesis by (rule in_set_mapI [rotated])
  qed
  have inactive: "x \<in> set (map ?F ms)" if "x \<in> set ms" "\<not> is_active x" for x
  proof -
    have "?F x = x" using that(2) by simp
    with that(1) show ?thesis by (rule in_set_mapI)
  qed
  have idsame: "map mem_id (map ?F ms) = map mem_id ms"
    by (rule map_unchanged) simp
  show ?thesis
    apply (rule bexI [OF _ k(1)])
    apply (rule exI [of _ "map ?F ms"])
    using top res idsame kin others inactive by blast
qed

lemma dup_group_tabs:
  "dup_group [often_used, rarely_used] often_used = [often_used, rarely_used]"
  by (simp add: dup_group_def content_key_def is_active_def key_use_tabs often_used_def
      rarely_used_def)

theorem dedup_keeps_most_accessed_witness:
  "distinct (map mem_id [often_used, rarely_used])
   \<and> often_used \<in> set [often_used, rarely_used] \<and> is_active often_used
   \<and> 2 \<le> length (dup_group [often_used, rarely_used] often_used)
   \<and> (\<exists>k\<in>set (dup_group [often_used, rarely_used] often_used). \<exists>ms'.
           (\<forall>x\<in>set (dup_group [often_used, rarely_used] often_used).
              access_count x < access_count k
              \<or> (access_count x = access_count k \<and> importance x \<le> importance k))
         \<and> dedup_pass (days 100) [often_used, rarely_used] = Inr ms'
         \<and> map mem_id ms' = map mem_id [often_used, rarely_used]
         \<and> k \<in> set ms'
         \<and> (\<forall>x\<in>set (dup_group [often_used, rarely_used] often_used). mem_id x \<noteq> mem_id k \<longrightarrow>
               x\<lparr>superseded_by := Some (mem_id k), updated_at := days 100\<rparr> \<in> set ms')
         \<and> (\<forall>x\<in>set [often_used, rarely_used]. \<not> is_active x \<longrightarrow> x \<in> set ms'))
   \<and> access_count often_used = 3 \<and> importance often_used = 0.4
   \<and> access_count rarely_used = 1 \<and> importance rarely_used = 0.9
   \<and> consolidate (days 100) [often_used, rarely_used] =
       Inr [often_used, rarely_used\<lparr>superseded_by := Some (mem_id often_used),
                                    updated_at := days 100\<rparr>]"
proof -
  have h1: "distinct (map mem_id [often_used, rarely_used])"
    by (simp add: often_used_def rarely_used_def)
  have h2: "often_used \<in> set [often_used, rarely_used]" by simp
  have h3: "is_active often_used" by (simp add: often_used_def is_active_def)
  have h4: "2 \<le> length (dup_group [often_used, rarely_used] often_used)"
    by (simp add: dup_group_tabs)
  have v1: "access_count often_used = 3" and v2: "importance often_used = 0.4"
    and v3: "access_count rarely_used = 1" and v4: "importance rarely_used = 0.9"
    by (simp_all add: often_used_def rarely_used_def)
  have run: "consolidate (days 100) [often_used, rarely_used] =
       Inr [often_used, rarely_used\<lparr>superseded_by := Some (mem_id often_used),
                                    updated_at := days 100\<rparr>]"
    by (simp add: sweep_defs often_used_def rarely_used_def key_use_tabs)
  note e = dedup_keeps_most_accessed [OF h1 h2 h3 h4, of "days 100"]
  show ?thesis by (intro conjI h1 h2 h3 h4 e v1 v2 v3 v4 run)
qed

text \<open>
  C1 as stated fails: the first sweep takes the importance of \<open>stale_memory\<close> from 0.5 to
  0.45, the second sweep at the same time takes it on to 0.405.
\<close>

theorem sweep_twice_counterexample:
  "consolidate (days 100) [stale_memory] =
     Inr [stale_memory\<lparr>importance := 0.45, updated_at := days 100\<rparr>]
   \<and> consolidate (days 100) [stale_memory\<lparr>importance := 0.45, updated_at := days 100\<rparr>] =
     Inr [stale_memory\<lparr>importance := 0.405, updated_at := days 100\<rparr>]
   \<and> stale_memory\<lparr>importance := 0.405, updated_at := days 100\<rparr>
       \<noteq> stale_memory\<lparr>importance := 0.45, updated_at := days 100\<rparr>"
  by (simp add: sweep_defs stale_memory_def)

lemma retire_pass_settled:
  assumes "retire_pass now ms = Inr ms'" and "m \<in> set ms'"
  shows "\<not> retires now m"
proof -
  have ms': "ms' = map (\<lambda>m. if retires now m
                         then m\<lparr>superseded_by := Some (- 1), updated_at := now\<rparr>
                         else m) ms"
    using assms(1) by (simp add: retire_pass_def split: if_splits)
  then obtain x where "x \<in> set ms"
    and "m = (if retires now x then x\<lparr>superseded_by := Some (- 1), updated_at := now\<rparr> else x)"
    using assms(2) by auto
  then show ?thesis by (cases "retires now x") (simp_all add: retires_def)
qed

lemma retire_pass_none:
  assumes "\<forall>m\<in>set ms. \<not> retires now m"
  shows "retire_pass now ms = Inr ms"
proof -
  have "map (\<lambda>m. if retires now m
                 then m\<lparr>superseded_by := Some (- 1), updated_at := now\<rparr> else m) ms = ms"
    using assms by (simp add: map_idI)
  then show ?thesis using assms by (simp add: retire_pass_def)
qed

lemma decay_pass_none:
  assumes "\<forall>m\<in>set ms. \<not> decays now m"
  shows "decay_pass now ms = ms"
  using assms by (simp add: decay_pass_def map_idI)

lemma filter_eq_single:
  "distinct xs \<Longrightarrow> filter (\<lambda>z. z = y) xs = (if y \<in> set xs then [y] else [])"
  by (induction xs) auto

lemma filter_single:
  assumes "distinct xs" and "y \<in> set xs" and "P y" and "\<And>z. z \<in> set xs \<Longrightarrow> P z \<Longrightarrow> z = y"
  shows "filter P xs = [y]"
proof -
  have "filter P xs = filter (\<lambda>z. z = y) xs"
  proof (rule filter_cong [OF refl])
    fix z assume "z \<in> set xs"
    then show "P z = (z = y)" using assms(3,4) by blast
  qed
  then show ?thesis using assms(1,2) by (simp add: filter_eq_single)
qed

lemma dedup_pass_idem:
  assumes ids: "distinct (map mem_id ms)" and res: "dedup_pass now ms = Inr ms1"
  shows "dedup_pass now ms1 = Inr ms1"
proof -
  let ?K = "\<lambda>x. keeper_of (map row_of (dup_group ms x))"
  let ?F = "\<lambda>x. if is_active x \<and> mem_id x \<noteq> ?K x then mark now (?K x) x else x"
  have ms1: "ms1 = map ?F ms" using dedup_pass_eq [OF ids, of now] res by simp
  have ids1: "distinct (map mem_id ms1)"
  proof -
    have "map mem_id ms1 = map mem_id ms" unfolding ms1 by (rule map_unchanged) simp
    then show ?thesis using ids by simp
  qed
  have inj1: "inj_on mem_id (set ms1)" using ids1 by (simp add: distinct_map)
  have dist1: "distinct ms1" using ids1 by (simp add: distinct_map)
  have origin: "y \<in> set ms \<and> mem_id y = ?K y" if y: "y \<in> set ms1" "is_active y" for y
  proof -
    obtain x where x: "x \<in> set ms" "y = ?F x" using y(1) ms1 by auto
    show ?thesis
    proof (cases "is_active x \<and> mem_id x \<noteq> ?K x")
      case True
      then have "y = mark now (?K x) x" using x(2) by simp
      then show ?thesis using y(2) by simp
    next
      case False
      from x(2) have "y = x" unfolding if_not_P [OF False] .
      then show ?thesis using False x(1) y(2) by simp
    qed
  qed
  have alone: "dup_group ms1 y = [y]" if y: "y \<in> set ms1" "is_active y" for y
    unfolding dup_group_def
  proof (rule filter_single [OF dist1 y(1)])
    show "is_active y \<and> content_key y = content_key y" using y(2) by simp
  next
    fix z assume z: "z \<in> set ms1" "is_active z \<and> content_key z = content_key y"
    have "dup_group ms z = dup_group ms y" using z(2) by (simp add: dup_group_def)
    then have "mem_id z = mem_id y"
      using origin [OF z(1)] origin [OF y] z(2) by simp
    then show "z = y" using inj1 z(1) y(1) by (auto dest: inj_onD)
  qed
  have "map (\<lambda>x. if is_active x \<and> mem_id x \<noteq> keeper_of (map row_of (dup_group ms1 x))
                  then mark now (keeper_of (map row_of (dup_group ms1 x))) x else x) ms1 = ms1"
  proof (rule map_idI)
    fix y assume y: "y \<in> set ms1"
    show "(if is_active y \<and> mem_id y \<noteq> keeper_of (map row_of (dup_group ms1 y))
           then mark now (keeper_of (map row_of (dup_group ms1 y))) y else y) = y"
    proof (cases "is_active y")
      case True
      then show ?thesis using alone [OF y True] by (simp add: keeper_of_def row_of_def)
    next
      case False
      then show ?thesis by simp
    qed
  qed
  then show ?thesis using dedup_pass_eq [OF ids1, of now] by simp
qed

lemma dedup_pass_active:
  assumes ids: "distinct (map mem_id ms)" and res: "dedup_pass now ms = Inr ms1"
    and y: "y \<in> set ms1" "is_active y"
  shows "y \<in> set ms"
proof -
  let ?K = "\<lambda>x. keeper_of (map row_of (dup_group ms x))"
  let ?F = "\<lambda>x. if is_active x \<and> mem_id x \<noteq> ?K x then mark now (?K x) x else x"
  have ms1: "ms1 = map ?F ms" using dedup_pass_eq [OF ids, of now] res by simp
  obtain x where x: "x \<in> set ms" "y = ?F x" using y(1) ms1 by auto
  show ?thesis
  proof (cases "is_active x \<and> mem_id x \<noteq> ?K x")
    case True
    then have "y = mark now (?K x) x" using x(2) by simp
    then show ?thesis using y(2) by simp
  next
    case False
    from x(2) have "y = x" unfolding if_not_P [OF False] .
    then show ?thesis using x(1) by simp
  qed
qed

text \<open>
  C1, amended: in a table with unique ids, if the first sweep completes and leaves no
  record that still meets the decay condition (Active, \<open>access_count = 0\<close>, created more
  than 30 days before \<open>now\<close>, importance above 0.1), then a second sweep at the same time
  completes and returns the table unchanged.
\<close>

theorem sweep_twice_after_decay_settled:
  assumes ids: "distinct (map mem_id ms)"
    and first: "consolidate now ms = Inr ms1"
    and settled: "\<forall>m\<in>set ms1. \<not> decays now m"
  shows "consolidate now ms1 = Inr ms1"
proof -
  obtain ms2 where r: "retire_pass now (decay_pass now ms) = Inr ms2"
    and d: "dedup_pass now ms2 = Inr ms1"
    using first by (auto simp: consolidate_def split: sum.splits)
  have "map mem_id ms2 = map mem_id (decay_pass now ms)"
    by (rule retire_pass_map [OF r]) simp
  also have "\<dots> = map mem_id ms" unfolding decay_pass_def by (rule map_unchanged) simp
  finally have ids2: "distinct (map mem_id ms2)" using ids by simp
  have noret: "\<forall>m\<in>set ms1. \<not> retires now m"
  proof
    fix y assume y: "y \<in> set ms1"
    show "\<not> retires now y"
    proof (cases "is_active y")
      case True
      then have "y \<in> set ms2" using dedup_pass_active [OF ids2 d y] by simp
      then show ?thesis by (rule retire_pass_settled [OF r])
    next
      case False
      then show ?thesis by (simp add: retires_def is_active_def)
    qed
  qed
  have "decay_pass now ms1 = ms1" by (rule decay_pass_none [OF settled])
  moreover have "retire_pass now ms1 = Inr ms1" by (rule retire_pass_none [OF noret])
  moreover have "dedup_pass now ms1 = Inr ms1" by (rule dedup_pass_idem [OF ids2 d])
  ultimately show ?thesis by (simp add: consolidate_def)
qed

theorem sweep_twice_after_decay_settled_witness:
  "distinct (map mem_id [often_used, rarely_used, settled_memory])
   \<and> consolidate (days 100) [often_used, rarely_used, settled_memory] =
       Inr [often_used,
            rarely_used\<lparr>superseded_by := Some 1, updated_at := days 100\<rparr>,
            settled_memory\<lparr>importance := 0.0945, updated_at := days 100\<rparr>]
   \<and> \<not> (\<exists>m\<in>set [often_used,
                   rarely_used\<lparr>superseded_by := Some 1, updated_at := days 100\<rparr>,
                   settled_memory\<lparr>importance := 0.0945, updated_at := days 100\<rparr>].
           decays (days 100) m)
   \<and> consolidate (days 100)
         [often_used,
          rarely_used\<lparr>superseded_by := Some 1, updated_at := days 100\<rparr>,
          settled_memory\<lparr>importance := 0.0945, updated_at := days 100\<rparr>] =
       Inr [often_used,
            rarely_used\<lparr>superseded_by := Some 1, updated_at := days 100\<rparr>,
            settled_memory\<lparr>importance := 0.0945, updated_at := days 100\<rparr>]"
proof -
  let ?ms = "[often_used, rarely_used, settled_memory]"
  let ?ms1 = "[often_used,
            rarely_used\<lparr>superseded_by := Some 1, updated_at := days 100\<rparr>,
            settled_memory\<lparr>importance := 0.0945, updated_at := days 100\<rparr>]"
  have h1: "distinct (map mem_id ?ms)"
    by (simp add: often_used_def rarely_used_def settled_memory_def)
  have h2: "consolidate (days 100) ?ms = Inr ?ms1"
    by (simp add: sweep_defs often_used_def rarely_used_def settled_memory_def key_use_tabs
        key_build)
  have h3: "\<forall>m\<in>set ?ms1. \<not> decays (days 100) m"
    by (simp add: decays_def days_def often_used_def rarely_used_def settled_memory_def)
  have h3': "\<not> (\<exists>m\<in>set ?ms1. decays (days 100) m)"
    by (simp add: decays_def days_def often_used_def rarely_used_def settled_memory_def)
  have again: "consolidate (days 100) ?ms1 = Inr ?ms1"
    by (rule sweep_twice_after_decay_settled [OF h1 h2 h3])
  show ?thesis by (intro conjI h1 h2 h3' again)
qed

end
